theory Spec2Isabelle
  imports Main "HOL-Library.Sublist"
begin

section \<open>JavaScript strings\<close>

text \<open>
  A JavaScript string is a sequence of UTF-16 code units. A code unit is modelled by its
  number (a \<open>nat\<close>; real code units are below 65536), a string by the list of its code
  units. \<open>js\<close> turns a literal of the source into such a list (a Latin-1 letter of a
  literal is written \<open>CHR\<close>, as \<open>CHR 0xC9\<close> for \<open>U+00C9\<close>).
\<close>

type_synonym jsstring = "nat list"

definition js :: "string \<Rightarrow> jsstring" where
  "js s = map of_char s"

text \<open>
  \<open>WhiteSpace\<close> and \<open>LineTerminator\<close> of ECMAScript: what \<open>\s\<close> matches and what
  \<open>trim\<close> strips.
\<close>

definition isSpace :: "nat \<Rightarrow> bool" where
  "isSpace c = (c = 9 \<or> c = 10 \<or> c = 11 \<or> c = 12 \<or> c = 13 \<or> c = 32 \<or> c = 160
     \<or> c = 5760 \<or> (8192 \<le> c \<and> c \<le> 8202) \<or> c = 8232 \<or> c = 8233 \<or> c = 8239
     \<or> c = 8287 \<or> c = 12288 \<or> c = 65279)"

definition isDigit :: "nat \<Rightarrow> bool" where
  "isDigit c = (48 \<le> c \<and> c \<le> 57)"

text \<open>\<open>.\<close> matches every code unit but the four line terminators.\<close>

definition isLineTerminator :: "nat \<Rightarrow> bool" where
  "isLineTerminator c = (c = 10 \<or> c = 13 \<or> c = 8232 \<or> c = 8233)"

text \<open>
  \<open>String.prototype.toUpperCase\<close> reads the string as code points
  (\<open>StringToCodePoints\<close>: a lead surrogate followed by a trail surrogate is one code
  point, any other code unit is a code point by itself), replaces every code point by its
  upper-case form, which may be several code points, and writes the result back as code
  units (\<open>UTF16EncodeCodePoint\<close>).
\<close>

definition isLead :: "nat \<Rightarrow> bool" where
  "isLead c = (0xD800 \<le> c \<and> c \<le> 0xDBFF)"

definition isTrail :: "nat \<Rightarrow> bool" where
  "isTrail c = (0xDC00 \<le> c \<and> c \<le> 0xDFFF)"

fun codePoints :: "jsstring \<Rightarrow> nat list" where
  "codePoints (h # l # cs) =
     (if isLead h \<and> isTrail l
      then (0x10000 + (h - 0xD800) * 0x400 + (l - 0xDC00)) # codePoints cs
      else h # codePoints (l # cs))"
| "codePoints cs = cs"

definition codeUnits :: "nat \<Rightarrow> jsstring" where
  "codeUnits cp =
     (if cp < 0x10000 then [cp]
      else [0xD800 + (cp - 0x10000) div 0x400, 0xDC00 + (cp - 0x10000) mod 0x400])"

text \<open>
  The upper-case forms are those of the Unicode Character Database, version 15.0: the
  simple mappings of \<open>UnicodeData.txt\<close> overridden by the mappings of
  \<open>SpecialCasing.txt\<close> that do not depend on the language, as ECMAScript prescribes
  for \<open>toUpperCase\<close>. Of the code points, 1525 have an upper-case form other than
  themselves. The table lists them in ascending order, in rows of three kinds:
  \<open>Shift lo hi t\<close> maps each code point from \<open>lo\<close> to \<open>hi\<close> to the one at the same
  distance from \<open>t\<close>; \<open>Pairs lo hi\<close> maps \<open>lo\<close>, \<open>lo + 2\<close>, ..., \<open>hi\<close> each to its
  predecessor and leaves the code points in between, which are the upper-case letters;
  \<open>Full c us\<close> maps \<open>c\<close> to the sequence \<open>us\<close>. A code point in no row is its own
  upper-case form.
\<close>

datatype casing = Shift nat nat nat | Pairs nat nat | Full nat "nat list"

definition upperCasing :: "casing list" where
  "upperCasing =
     [
      Shift 0x0061 0x007A 0x0041, Full 0x00B5 [0x039C], Full 0x00DF [0x0053, 0x0053],
      Shift 0x00E0 0x00F6 0x00C0, Shift 0x00F8 0x00FE 0x00D8, Full 0x00FF [0x0178],
      Pairs 0x0101 0x012F, Full 0x0131 [0x0049], Pairs 0x0133 0x0137, Pairs 0x013A 0x0148,
      Full 0x0149 [0x02BC, 0x004E], Pairs 0x014B 0x0177, Pairs 0x017A 0x017E,
      Full 0x017F [0x0053], Full 0x0180 [0x0243], Pairs 0x0183 0x0185,
      Full 0x0188 [0x0187], Full 0x018C [0x018B], Full 0x0192 [0x0191],
      Full 0x0195 [0x01F6], Full 0x0199 [0x0198], Full 0x019A [0x023D],
      Full 0x019E [0x0220], Pairs 0x01A1 0x01A5, Full 0x01A8 [0x01A7],
      Full 0x01AD [0x01AC], Full 0x01B0 [0x01AF], Pairs 0x01B4 0x01B6,
      Full 0x01B9 [0x01B8], Full 0x01BD [0x01BC], Full 0x01BF [0x01F7],
      Full 0x01C5 [0x01C4], Full 0x01C6 [0x01C4], Full 0x01C8 [0x01C7],
      Full 0x01C9 [0x01C7], Full 0x01CB [0x01CA], Full 0x01CC [0x01CA],
      Pairs 0x01CE 0x01DC, Full 0x01DD [0x018E], Pairs 0x01DF 0x01EF,
      Full 0x01F0 [0x004A, 0x030C], Full 0x01F2 [0x01F1], Full 0x01F3 [0x01F1],
      Full 0x01F5 [0x01F4], Pairs 0x01F9 0x021F, Pairs 0x0223 0x0233,
      Full 0x023C [0x023B], Shift 0x023F 0x0240 0x2C7E, Full 0x0242 [0x0241],
      Pairs 0x0247 0x024F, Full 0x0250 [0x2C6F], Full 0x0251 [0x2C6D],
      Full 0x0252 [0x2C70], Full 0x0253 [0x0181], Full 0x0254 [0x0186],
      Shift 0x0256 0x0257 0x0189, Full 0x0259 [0x018F], Full 0x025B [0x0190],
      Full 0x025C [0xA7AB], Full 0x0260 [0x0193], Full 0x0261 [0xA7AC],
      Full 0x0263 [0x0194], Full 0x0265 [0xA78D], Full 0x0266 [0xA7AA],
      Full 0x0268 [0x0197], Full 0x0269 [0x0196], Full 0x026A [0xA7AE],
      Full 0x026B [0x2C62], Full 0x026C [0xA7AD], Full 0x026F [0x019C],
      Full 0x0271 [0x2C6E], Full 0x0272 [0x019D], Full 0x0275 [0x019F],
      Full 0x027D [0x2C64], Full 0x0280 [0x01A6], Full 0x0282 [0xA7C5],
      Full 0x0283 [0x01A9], Full 0x0287 [0xA7B1], Full 0x0288 [0x01AE],
      Full 0x0289 [0x0244], Shift 0x028A 0x028B 0x01B1, Full 0x028C [0x0245],
      Full 0x0292 [0x01B7], Full 0x029D [0xA7B2], Full 0x029E [0xA7B0],
      Full 0x0345 [0x0399], Pairs 0x0371 0x0373, Full 0x0377 [0x0376],
      Shift 0x037B 0x037D 0x03FD, Full 0x0390 [0x0399, 0x0308, 0x0301],
      Full 0x03AC [0x0386], Shift 0x03AD 0x03AF 0x0388,
      Full 0x03B0 [0x03A5, 0x0308, 0x0301], Shift 0x03B1 0x03C1 0x0391,
      Full 0x03C2 [0x03A3], Shift 0x03C3 0x03CB 0x03A3, Full 0x03CC [0x038C],
      Shift 0x03CD 0x03CE 0x038E, Full 0x03D0 [0x0392], Full 0x03D1 [0x0398],
      Full 0x03D5 [0x03A6], Full 0x03D6 [0x03A0], Full 0x03D7 [0x03CF],
      Pairs 0x03D9 0x03EF, Full 0x03F0 [0x039A], Full 0x03F1 [0x03A1],
      Full 0x03F2 [0x03F9], Full 0x03F3 [0x037F], Full 0x03F5 [0x0395],
      Full 0x03F8 [0x03F7], Full 0x03FB [0x03FA], Shift 0x0430 0x044F 0x0410,
      Shift 0x0450 0x045F 0x0400, Pairs 0x0461 0x0481, Pairs 0x048B 0x04BF,
      Pairs 0x04C2 0x04CE, Full 0x04CF [0x04C0], Pairs 0x04D1 0x052F,
      Shift 0x0561 0x0586 0x0531, Full 0x0587 [0x0535, 0x0552],
      Shift 0x10D0 0x10FA 0x1C90, Shift 0x10FD 0x10FF 0x1CBD, Shift 0x13F8 0x13FD 0x13F0,
      Full 0x1C80 [0x0412], Full 0x1C81 [0x0414], Full 0x1C82 [0x041E],
      Shift 0x1C83 0x1C84 0x0421, Full 0x1C85 [0x0422], Full 0x1C86 [0x042A],
      Full 0x1C87 [0x0462], Full 0x1C88 [0xA64A], Full 0x1D79 [0xA77D],
      Full 0x1D7D [0x2C63], Full 0x1D8E [0xA7C6], Pairs 0x1E01 0x1E95,
      Full 0x1E96 [0x0048, 0x0331], Full 0x1E97 [0x0054, 0x0308],
      Full 0x1E98 [0x0057, 0x030A], Full 0x1E99 [0x0059, 0x030A],
      Full 0x1E9A [0x0041, 0x02BE], Full 0x1E9B [0x1E60], Pairs 0x1EA1 0x1EFF,
      Shift 0x1F00 0x1F07 0x1F08, Shift 0x1F10 0x1F15 0x1F18, Shift 0x1F20 0x1F27 0x1F28,
      Shift 0x1F30 0x1F37 0x1F38, Shift 0x1F40 0x1F45 0x1F48,
      Full 0x1F50 [0x03A5, 0x0313], Full 0x1F51 [0x1F59],
      Full 0x1F52 [0x03A5, 0x0313, 0x0300], Full 0x1F53 [0x1F5B],
      Full 0x1F54 [0x03A5, 0x0313, 0x0301], Full 0x1F55 [0x1F5D],
      Full 0x1F56 [0x03A5, 0x0313, 0x0342], Full 0x1F57 [0x1F5F],
      Shift 0x1F60 0x1F67 0x1F68, Shift 0x1F70 0x1F71 0x1FBA, Shift 0x1F72 0x1F75 0x1FC8,
      Shift 0x1F76 0x1F77 0x1FDA, Shift 0x1F78 0x1F79 0x1FF8, Shift 0x1F7A 0x1F7B 0x1FEA,
      Shift 0x1F7C 0x1F7D 0x1FFA, Full 0x1F80 [0x1F08, 0x0399],
      Full 0x1F81 [0x1F09, 0x0399], Full 0x1F82 [0x1F0A, 0x0399],
      Full 0x1F83 [0x1F0B, 0x0399], Full 0x1F84 [0x1F0C, 0x0399],
      Full 0x1F85 [0x1F0D, 0x0399], Full 0x1F86 [0x1F0E, 0x0399],
      Full 0x1F87 [0x1F0F, 0x0399], Full 0x1F88 [0x1F08, 0x0399],
      Full 0x1F89 [0x1F09, 0x0399], Full 0x1F8A [0x1F0A, 0x0399],
      Full 0x1F8B [0x1F0B, 0x0399], Full 0x1F8C [0x1F0C, 0x0399],
      Full 0x1F8D [0x1F0D, 0x0399], Full 0x1F8E [0x1F0E, 0x0399],
      Full 0x1F8F [0x1F0F, 0x0399], Full 0x1F90 [0x1F28, 0x0399],
      Full 0x1F91 [0x1F29, 0x0399], Full 0x1F92 [0x1F2A, 0x0399],
      Full 0x1F93 [0x1F2B, 0x0399], Full 0x1F94 [0x1F2C, 0x0399],
      Full 0x1F95 [0x1F2D, 0x0399], Full 0x1F96 [0x1F2E, 0x0399],
      Full 0x1F97 [0x1F2F, 0x0399], Full 0x1F98 [0x1F28, 0x0399],
      Full 0x1F99 [0x1F29, 0x0399], Full 0x1F9A [0x1F2A, 0x0399],
      Full 0x1F9B [0x1F2B, 0x0399], Full 0x1F9C [0x1F2C, 0x0399],
      Full 0x1F9D [0x1F2D, 0x0399], Full 0x1F9E [0x1F2E, 0x0399],
      Full 0x1F9F [0x1F2F, 0x0399], Full 0x1FA0 [0x1F68, 0x0399],
      Full 0x1FA1 [0x1F69, 0x0399], Full 0x1FA2 [0x1F6A, 0x0399],
      Full 0x1FA3 [0x1F6B, 0x0399], Full 0x1FA4 [0x1F6C, 0x0399],
      Full 0x1FA5 [0x1F6D, 0x0399], Full 0x1FA6 [0x1F6E, 0x0399],
      Full 0x1FA7 [0x1F6F, 0x0399], Full 0x1FA8 [0x1F68, 0x0399],
      Full 0x1FA9 [0x1F69, 0x0399], Full 0x1FAA [0x1F6A, 0x0399],
      Full 0x1FAB [0x1F6B, 0x0399], Full 0x1FAC [0x1F6C, 0x0399],
      Full 0x1FAD [0x1F6D, 0x0399], Full 0x1FAE [0x1F6E, 0x0399],
      Full 0x1FAF [0x1F6F, 0x0399], Shift 0x1FB0 0x1FB1 0x1FB8,
      Full 0x1FB2 [0x1FBA, 0x0399], Full 0x1FB3 [0x0391, 0x0399],
      Full 0x1FB4 [0x0386, 0x0399], Full 0x1FB6 [0x0391, 0x0342],
      Full 0x1FB7 [0x0391, 0x0342, 0x0399], Full 0x1FBC [0x0391, 0x0399],
      Full 0x1FBE [0x0399], Full 0x1FC2 [0x1FCA, 0x0399], Full 0x1FC3 [0x0397, 0x0399],
      Full 0x1FC4 [0x0389, 0x0399], Full 0x1FC6 [0x0397, 0x0342],
      Full 0x1FC7 [0x0397, 0x0342, 0x0399], Full 0x1FCC [0x0397, 0x0399],
      Shift 0x1FD0 0x1FD1 0x1FD8, Full 0x1FD2 [0x0399, 0x0308, 0x0300],
      Full 0x1FD3 [0x0399, 0x0308, 0x0301], Full 0x1FD6 [0x0399, 0x0342],
      Full 0x1FD7 [0x0399, 0x0308, 0x0342], Shift 0x1FE0 0x1FE1 0x1FE8,
      Full 0x1FE2 [0x03A5, 0x0308, 0x0300], Full 0x1FE3 [0x03A5, 0x0308, 0x0301],
      Full 0x1FE4 [0x03A1, 0x0313], Full 0x1FE5 [0x1FEC], Full 0x1FE6 [0x03A5, 0x0342],
      Full 0x1FE7 [0x03A5, 0x0308, 0x0342], Full 0x1FF2 [0x1FFA, 0x0399],
      Full 0x1FF3 [0x03A9, 0x0399], Full 0x1FF4 [0x038F, 0x0399],
      Full 0x1FF6 [0x03A9, 0x0342], Full 0x1FF7 [0x03A9, 0x0342, 0x0399],
      Full 0x1FFC [0x03A9, 0x0399], Full 0x214E [0x2132], Shift 0x2170 0x217F 0x2160,
      Full 0x2184 [0x2183], Shift 0x24D0 0x24E9 0x24B6, Shift 0x2C30 0x2C5F 0x2C00,
      Full 0x2C61 [0x2C60], Full 0x2C65 [0x023A], Full 0x2C66 [0x023E],
      Pairs 0x2C68 0x2C6C, Full 0x2C73 [0x2C72], Full 0x2C76 [0x2C75],
      Pairs 0x2C81 0x2CE3, Pairs 0x2CEC 0x2CEE, Full 0x2CF3 [0x2CF2],
      Shift 0x2D00 0x2D25 0x10A0, Full 0x2D27 [0x10C7], Full 0x2D2D [0x10CD],
      Pairs 0xA641 0xA66D, Pairs 0xA681 0xA69B, Pairs 0xA723 0xA72F, Pairs 0xA733 0xA76F,
      Pairs 0xA77A 0xA77C, Pairs 0xA77F 0xA787, Full 0xA78C [0xA78B], Pairs 0xA791 0xA793,
      Full 0xA794 [0xA7C4], Pairs 0xA797 0xA7A9, Pairs 0xA7B5 0xA7C3, Pairs 0xA7C8 0xA7CA,
      Full 0xA7D1 [0xA7D0], Pairs 0xA7D7 0xA7D9, Full 0xA7F6 [0xA7F5],
      Full 0xAB53 [0xA7B3], Shift 0xAB70 0xABBF 0x13A0, Full 0xFB00 [0x0046, 0x0046],
      Full 0xFB01 [0x0046, 0x0049], Full 0xFB02 [0x0046, 0x004C],
      Full 0xFB03 [0x0046, 0x0046, 0x0049], Full 0xFB04 [0x0046, 0x0046, 0x004C],
      Full 0xFB05 [0x0053, 0x0054], Full 0xFB06 [0x0053, 0x0054],
      Full 0xFB13 [0x0544, 0x0546], Full 0xFB14 [0x0544, 0x0535],
      Full 0xFB15 [0x0544, 0x053B], Full 0xFB16 [0x054E, 0x0546],
      Full 0xFB17 [0x0544, 0x053D], Shift 0xFF41 0xFF5A 0xFF21,
      Shift 0x10428 0x1044F 0x10400, Shift 0x104D8 0x104FB 0x104B0,
      Shift 0x10597 0x105A1 0x10570, Shift 0x105A3 0x105B1 0x1057C,
      Shift 0x105B3 0x105B9 0x1058C, Shift 0x105BB 0x105BC 0x10594,
      Shift 0x10CC0 0x10CF2 0x10C80, Shift 0x118C0 0x118DF 0x118A0,
      Shift 0x16E60 0x16E7F 0x16E40, Shift 0x1E922 0x1E943 0x1E900
     ]"

fun lookupUpper :: "casing list \<Rightarrow> nat \<Rightarrow> nat list" where
  "lookupUpper [] c = [c]"
| "lookupUpper (Shift lo hi t # rows) c =
     (if c < lo then [c] else if c \<le> hi then [c - lo + t] else lookupUpper rows c)"
| "lookupUpper (Pairs lo hi # rows) c =
     (if c < lo then [c]
      else if c \<le> hi then (if even (c - lo) then [c - 1] else [c])
      else lookupUpper rows c)"
| "lookupUpper (Full x us # rows) c =
     (if c < x then [c] else if c = x then us else lookupUpper rows c)"

definition upperPoint :: "nat \<Rightarrow> nat list" where
  "upperPoint c = lookupUpper upperCasing c"

definition toUpperCase :: "jsstring \<Rightarrow> jsstring" where
  "toUpperCase s = concat (map codeUnits (concat (map upperPoint (codePoints s))))"

text \<open>
  The shape of the table that the lookup relies on: every row covers a range of code
  points, from \<open>low\<close> to \<open>high\<close>, and the ranges ascend without overlap. \<open>mapped\<close> is
  the number of code points that a row maps.
\<close>

fun low :: "casing \<Rightarrow> nat" where
  "low (Shift lo hi t) = lo"
| "low (Pairs lo hi) = lo"
| "low (Full x us) = x"

fun high :: "casing \<Rightarrow> nat" where
  "high (Shift lo hi t) = hi"
| "high (Pairs lo hi) = hi"
| "high (Full x us) = x"

fun ascending :: "nat \<Rightarrow> casing list \<Rightarrow> bool" where
  "ascending n [] = True"
| "ascending n (row # rows) =
     (n \<le> low row \<and> low row \<le> high row \<and> ascending (Suc (high row)) rows)"

fun mapped :: "casing \<Rightarrow> nat" where
  "mapped (Shift lo hi t) = hi - lo + 1"
| "mapped (Pairs lo hi) = (hi - lo) div 2 + 1"
| "mapped (Full x us) = 1"

text \<open>\<open>s.includes(k)\<close>: \<open>k\<close> occurs in \<open>s\<close> as a contiguous block.\<close>

fun includes_js :: "jsstring \<Rightarrow> jsstring \<Rightarrow> bool" where
  "includes_js [] k = (k = [])"
| "includes_js (x # xs) k = (prefix k (x # xs) \<or> includes_js xs k)"

text \<open>\<open>s.trim()\<close>.\<close>

definition trim :: "jsstring \<Rightarrow> jsstring" where
  "trim s = rev (dropWhile isSpace (rev (dropWhile isSpace s)))"

text \<open>\<open>s.split('\n')\<close>: never empty, \<open>''.split('\n')\<close> is \<open>['']\<close>.\<close>

fun splitNL :: "jsstring \<Rightarrow> jsstring list" where
  "splitNL [] = [[]]"
| "splitNL (c # cs) =
     (if c = 10 then [] # splitNL cs
      else (case splitNL cs of l # ls \<Rightarrow> (c # l) # ls | [] \<Rightarrow> [[c]]))"

text \<open>\<open>s.replace(d, '')\<close> with a string \<open>d\<close>: the first occurrence of \<open>d\<close> is removed.\<close>

fun removeFirst :: "jsstring \<Rightarrow> jsstring \<Rightarrow> jsstring" where
  "removeFirst d [] = []"
| "removeFirst d (x # xs) =
     (if prefix d (x # xs) then drop (length d) (x # xs) else x # removeFirst d xs)"

section \<open>Regular expressions\<close>

text \<open>
  The regular expressions of the source, as syntax trees, and the backtracking matcher of
  ECMAScript for them. A character matcher is a pattern character (\<open>Lit\<close>; \<open>LitI\<close> under
  the \<open>i\<close> flag), \<open>.\<close> (\<open>Any\<close>), a class \<open>[...]\<close> (\<open>CSet\<close>) or a negated class
  \<open>[^...]\<close> (\<open>NSet\<close>); \<open>\d\<close> and \<open>\s\<close> are the classes of \<open>Dig\<close> and \<open>Spc\<close>.
  \<open>Star\<close> is the greedy \<open>*\<close>, \<open>LStar\<close> the lazy \<open>*?\<close>, \<open>Grp n\<close> the \<open>n\<close>-th capturing
  group, \<open>Bol\<close> and \<open>Eol\<close> are \<open>^\<close> and \<open>$\<close> (the source uses no \<open>m\<close> flag).
\<close>

datatype atom = Ch nat | Rng nat nat | Dig | Spc

datatype cls = Lit nat | LitI nat | Any | CSet "atom list" | NSet "atom list"

datatype re =
    Eps
  | Bol
  | Eol
  | Chr cls
  | Seq re re
  | Alt re re
  | Star re
  | LStar re
  | Grp nat re

fun inAtom :: "nat \<Rightarrow> atom \<Rightarrow> bool" where
  "inAtom c (Ch x) = (c = x)"
| "inAtom c (Rng lo hi) = (lo \<le> c \<and> c \<le> hi)"
| "inAtom c Dig = isDigit c"
| "inAtom c Spc = isSpace c"

text \<open>
  \<open>Canonicalize\<close> of ECMAScript without the \<open>u\<close> flag: the upper-case form when it is one
  code unit, except that a code unit from 128 on never folds to one below 128.
\<close>

definition canonicalize :: "nat \<Rightarrow> nat" where
  "canonicalize c =
     (case concat (map codeUnits (upperPoint c)) of
        [u] \<Rightarrow> if 128 \<le> c \<and> u < 128 then c else u
      | _ \<Rightarrow> c)"

fun accepts :: "cls \<Rightarrow> nat \<Rightarrow> bool" where
  "accepts (Lit x) y = (y = x)"
| "accepts (LitI x) y = (canonicalize y = canonicalize x)"
| "accepts Any y = (\<not> isLineTerminator y)"
| "accepts (CSet as) y = list_ex (inAtom y) as"
| "accepts (NSet as) y = (\<not> list_ex (inAtom y) as)"

text \<open>
  The state of a match is the captures so far (the latest first), whether the position is
  the start of the input, and the input that is left. The continuation of ECMAScript's
  matcher is an explicit stack of frames: what is still to be matched, the check that an
  iteration of \<open>*\<close> has consumed input (an iteration that consumes nothing is rejected),
  and the end of a capturing group, which records the group's text. \<open>bt\<close> returns the
  first match that backtracking finds, \<open>None\<close> when there is none.
\<close>

type_synonym caps = "(nat \<times> jsstring) list"

type_synonym mstate = "caps \<times> bool \<times> jsstring"

datatype frame = Re re | StarCk bool re nat | GrpEnd nat jsstring

fun wre :: "re \<Rightarrow> nat" where
  "wre (Seq p q) = wre p + wre q + 1"
| "wre (Alt p q) = wre p + wre q + 1"
| "wre (Star p) = wre p + 2"
| "wre (LStar p) = wre p + 2"
| "wre (Grp n p) = wre p + 2"
| "wre r = 1"

fun wframe :: "nat \<Rightarrow> frame \<Rightarrow> nat" where
  "wframe len (Re r) = wre r"
| "wframe len (StarCk lz p n) = (if len < n then wre p + 3 else 1)"
| "wframe len (GrpEnd n s0) = 1"

function bt :: "frame list \<Rightarrow> caps \<Rightarrow> bool \<Rightarrow> jsstring \<Rightarrow> mstate option" where
  "bt [] c b s = Some (c, b, s)"
| "bt (Re Eps # k) c b s = bt k c b s"
| "bt (Re Bol # k) c b s = (if b then bt k c b s else None)"
| "bt (Re Eol # k) c b s = (if s = [] then bt k c b s else None)"
| "bt (Re (Chr cl) # k) c b s =
     (case s of
        [] \<Rightarrow> None
      | y # ys \<Rightarrow> if accepts cl y then bt k c False ys else None)"
| "bt (Re (Seq p q) # k) c b s = bt (Re p # Re q # k) c b s"
| "bt (Re (Alt p q) # k) c b s =
     (case bt (Re p # k) c b s of
        Some m \<Rightarrow> Some m
      | None \<Rightarrow> bt (Re q # k) c b s)"
| "bt (Re (Star p) # k) c b s =
     (case bt (Re p # StarCk False p (length s) # k) c b s of
        Some m \<Rightarrow> Some m
      | None \<Rightarrow> bt k c b s)"
| "bt (Re (LStar p) # k) c b s =
     (case bt k c b s of
        Some m \<Rightarrow> Some m
      | None \<Rightarrow> bt (Re p # StarCk True p (length s) # k) c b s)"
| "bt (StarCk lz p n # k) c b s =
     (if length s < n then bt (Re (if lz then LStar p else Star p) # k) c b s else None)"
| "bt (Re (Grp n p) # k) c b s = bt (Re p # GrpEnd n s # k) c b s"
| "bt (GrpEnd n s0 # k) c b s = bt k ((n, take (length s0 - length s) s0) # c) b s"
  by pat_completeness auto
termination
  by (relation "measures [\<lambda>(k, c, b, s). length s,
                          \<lambda>(k, c, b, s). sum_list (map (wframe (length s)) k)]") auto

text \<open>
  \<open>consumes r\<close>: by its syntax, \<open>r\<close> cannot match the empty text.
\<close>

fun consumes :: "re \<Rightarrow> bool" where
  "consumes (Chr cl) = True"
| "consumes (Seq p q) = (consumes p \<or> consumes q)"
| "consumes (Alt p q) = (consumes p \<and> consumes q)"
| "consumes (Grp n p) = consumes p"
| "consumes r = False"

fun consumesFrame :: "frame \<Rightarrow> bool" where
  "consumesFrame (Re r) = consumes r"
| "consumesFrame f = False"

text \<open>
  \<open>exec\<close> searches the input from the current position for the leftmost position where the
  expression matches and returns the text skipped before it, the matched text
  (\<open>match[0]\<close>), the captures and the input left after the match.
\<close>

type_synonym found = "jsstring \<times> jsstring \<times> caps \<times> jsstring"

definition matchAt :: "re \<Rightarrow> bool \<Rightarrow> jsstring \<Rightarrow> found option" where
  "matchAt r b s =
     (case bt [Re r] [] b s of
        Some (c, b', s') \<Rightarrow> Some ([], take (length s - length s') s, c, s')
      | None \<Rightarrow> None)"

fun exec :: "re \<Rightarrow> bool \<Rightarrow> jsstring \<Rightarrow> found option" where
  "exec r b [] = matchAt r b []"
| "exec r b (x # xs) =
     (case matchAt r b (x # xs) of
        Some f \<Rightarrow> Some f
      | None \<Rightarrow> map_option (\<lambda>(pre, m, c, rest). (x # pre, m, c, rest)) (exec r False xs))"

text \<open>\<open>regex.test(s)\<close> for an expression without the \<open>g\<close> flag.\<close>

definition test :: "re \<Rightarrow> jsstring \<Rightarrow> bool" where
  "test r s = (exec r True s \<noteq> None)"

text \<open>The text of capturing group \<open>n\<close> of a match (\<open>match[n]\<close>).\<close>

definition group :: "caps \<Rightarrow> nat \<Rightarrow> jsstring" where
  "group c n = (case map_of c n of Some g \<Rightarrow> g | None \<Rightarrow> [])"

text \<open>A literal run of pattern characters under the \<open>i\<close> flag.\<close>

fun stri :: "jsstring \<Rightarrow> re" where
  "stri [] = Eps"
| "stri [c] = Chr (LitI c)"
| "stri (c # cs) = Seq (Chr (LitI c)) (stri cs)"

text \<open>\<open>p+\<close>, \<open>p+?\<close>, \<open>p?\<close>, \<open>p{2}\<close>, \<open>p{3}\<close>, \<open>p{4}\<close> and \<open>p{1,3}\<close>.\<close>

definition Plus :: "re \<Rightarrow> re" where
  "Plus p = Seq p (Star p)"

definition LPlus :: "re \<Rightarrow> re" where
  "LPlus p = Seq p (LStar p)"

definition Opt :: "re \<Rightarrow> re" where
  "Opt p = Alt p Eps"

definition Rep2 :: "re \<Rightarrow> re" where
  "Rep2 p = Seq p p"

definition Rep3 :: "re \<Rightarrow> re" where
  "Rep3 p = Seq p (Seq p p)"

definition Rep4 :: "re \<Rightarrow> re" where
  "Rep4 p = Seq p (Seq p (Seq p p))"

definition Rep1to3 :: "re \<Rightarrow> re" where
  "Rep1to3 p = Seq p (Opt (Seq p (Opt p)))"

definition digit :: re where
  "digit = Chr (CSet [Dig])"

definition space :: re where
  "space = Chr (CSet [Spc])"

definition comma :: re where
  "comma = Chr (Lit 44)"

definition slash :: re where
  "slash = Chr (Lit 47)"

text \<open>An alternation \<open>a|b|c\<close>, tried from left to right.\<close>

fun alts :: "re list \<Rightarrow> re" where
  "alts [] = Eps"
| "alts [r] = r"
| "alts (r # rs) = Alt r (alts rs)"

subsection \<open>What is left after a match is a suffix of the input\<close>

lemma bt_suffix: "bt k c b s = Some (c', b', s') \<Longrightarrow> suffix s' s"
  by (induction k c b s rule: bt.induct)
     (auto split: option.splits list.splits if_splits intro: suffix_ConsI)

lemma matchAt_parts:
  assumes "matchAt r b s = Some (pre, m, c, rest)"
  shows "pre = [] \<and> s = m @ rest"
proof -
  from assms obtain c' b' where bt: "bt [Re r] [] b s = Some (c', b', rest)"
    and m: "m = take (length s - length rest) s" and pre: "pre = []"
    by (auto simp: matchAt_def split: option.splits)
  from bt_suffix [OF bt] obtain p where "s = p @ rest" by (auto simp: suffix_def)
  with m pre show ?thesis by simp
qed

lemma exec_parts: "exec r b s = Some (pre, m, c, rest) \<Longrightarrow> s = pre @ m @ rest"
proof (induction s arbitrary: b pre)
  case Nil
  then show ?case using matchAt_parts by fastforce
next
  case (Cons x xs)
  show ?case
  proof (cases "matchAt r b (x # xs)")
    case (Some f)
    with Cons.prems have "matchAt r b (x # xs) = Some (pre, m, c, rest)" by simp
    from matchAt_parts [OF this] show ?thesis by simp
  next
    case None
    with Cons.prems obtain pre' where "exec r False xs = Some (pre', m, c, rest)" and "pre = x # pre'"
      by auto
    with Cons.IH show ?thesis by simp
  qed
qed

lemma exec_rest_length:
  assumes "exec r b s = Some (pre, m, c, rest)"
  shows "length rest \<le> length s" and "m \<noteq> [] \<Longrightarrow> length rest < length s"
  using exec_parts [OF assms] by auto

subsection \<open>The string methods that take a regular expression\<close>

text \<open>\<open>s.match(r)\<close> for \<open>r\<close> without the \<open>g\<close> flag: the captures of the first match.\<close>

definition match_js :: "re \<Rightarrow> jsstring \<Rightarrow> caps option" where
  "match_js r s = map_option (\<lambda>(pre, m, c, rest). c) (exec r True s)"

text \<open>
  \<open>s.match(r)\<close> for \<open>r\<close> with the \<open>g\<close> flag: the texts of all matches, from left to
  right; the empty list stands for \<open>null\<close>. After an empty match the search goes on one
  code unit further.
\<close>

function matchAll :: "re \<Rightarrow> bool \<Rightarrow> jsstring \<Rightarrow> jsstring list" where
  "matchAll r b s =
     (case exec r b s of
        None \<Rightarrow> []
      | Some (pre, m, c, rest) \<Rightarrow>
          if m \<noteq> [] then m # matchAll r False rest
          else (case rest of [] \<Rightarrow> [m] | x # xs \<Rightarrow> m # matchAll r False xs))"
  by pat_completeness auto
termination
proof (relation "measure (\<lambda>(r, b, s). length s)")
  show "wf (measure (\<lambda>(r, b, s). length s))" by simp
next
  fix r b s f pre g m h c rest
  assume "exec r b s = Some f" "(pre, g) = f" "(m, h) = g" "(c, rest) = h" "m \<noteq> []"
  then have "exec r b s = Some (pre, m, c, rest)" by simp
  from exec_rest_length(2) [OF this \<open>m \<noteq> []\<close>]
  show "((r, False, rest), (r, b, s)) \<in> measure (\<lambda>(r, b, s). length s)" by simp
next
  fix r b s f pre g m h c rest x xs
  assume "exec r b s = Some f" "(pre, g) = f" "(m, h) = g" "(c, rest) = h" "rest = x # xs"
  then have "exec r b s = Some (pre, m, c, x # xs)" by simp
  from exec_rest_length(1) [OF this]
  show "((r, False, xs), (r, b, s)) \<in> measure (\<lambda>(r, b, s). length s)" by simp
qed

declare matchAll.simps [simp del]

text \<open>\<open>s.replace(r, rep)\<close> for \<open>r\<close> without the \<open>g\<close> flag.\<close>

definition replaceFirst :: "re \<Rightarrow> jsstring \<Rightarrow> jsstring \<Rightarrow> jsstring" where
  "replaceFirst r rep s =
     (case exec r True s of
        None \<Rightarrow> s
      | Some (pre, m, c, rest) \<Rightarrow> pre @ rep @ rest)"

text \<open>
  \<open>s.replace(r, rep)\<close> for \<open>r\<close> with the \<open>g\<close> flag; the source's replacement texts
  have no \<open>$\<close>.
\<close>

function replaceAll :: "re \<Rightarrow> jsstring \<Rightarrow> bool \<Rightarrow> jsstring \<Rightarrow> jsstring" where
  "replaceAll r rep b s =
     (case exec r b s of
        None \<Rightarrow> s
      | Some (pre, m, c, rest) \<Rightarrow>
          if m \<noteq> [] then pre @ rep @ replaceAll r rep False rest
          else (case rest of
                  [] \<Rightarrow> pre @ rep
                | x # xs \<Rightarrow> pre @ rep @ x # replaceAll r rep False xs))"
  by pat_completeness auto
termination
proof (relation "measure (\<lambda>(r, rep, b, s). length s)")
  show "wf (measure (\<lambda>(r, rep, b, s). length s))" by simp
next
  fix r rep b s f pre g m h c rest
  assume "exec r b s = Some f" "(pre, g) = f" "(m, h) = g" "(c, rest) = h" "m \<noteq> []"
  then have "exec r b s = Some (pre, m, c, rest)" by simp
  from exec_rest_length(2) [OF this \<open>m \<noteq> []\<close>]
  show "((r, rep, False, rest), (r, rep, b, s)) \<in> measure (\<lambda>(r, rep, b, s). length s)" by simp
next
  fix r rep b s f pre g m h c rest x xs
  assume "exec r b s = Some f" "(pre, g) = f" "(m, h) = g" "(c, rest) = h" "rest = x # xs"
  then have "exec r b s = Some (pre, m, c, x # xs)" by simp
  from exec_rest_length(1) [OF this]
  show "((r, rep, False, xs), (r, rep, b, s)) \<in> measure (\<lambda>(r, rep, b, s). length s)" by simp
qed

declare replaceAll.simps [simp del]

text \<open>
  \<open>s.split(r)\<close>. \<open>splitLoop\<close> is the loop of the method: \<open>piece\<close> is the text since
  the end of the last separator, \<open>s\<close> the input from the position \<open>q\<close> where a separator
  is tried next. An empty separator ends the piece only where the piece is not empty, and
  the next separator is tried one code unit further. The separator of the source has no
  capturing group, whose text the method would add to the list.
\<close>

function splitLoop :: "re \<Rightarrow> jsstring \<Rightarrow> bool \<Rightarrow> jsstring \<Rightarrow> jsstring list" where
  "splitLoop r piece b [] = [piece]"
| "splitLoop r piece b (x # xs) =
     (case matchAt r b (x # xs) of
        None \<Rightarrow> splitLoop r (piece @ [x]) False xs
      | Some (pre, m, c, rest) \<Rightarrow>
          if m \<noteq> [] then piece # splitLoop r [] False rest
          else if piece = [] then splitLoop r [x] False xs
          else piece # splitLoop r [x] False xs)"
  by pat_completeness auto
termination
proof (relation "measure (\<lambda>(r, piece, b, s). length s)", goal_cases)
  case 1
  show ?case by simp
next
  case (2 r piece b x xs)
  show ?case by simp
next
  case (3 r piece b x xs f pre g m h c rest)
  then have "matchAt r b (x # xs) = Some (pre, m, c, rest)" by simp
  from matchAt_parts [OF this] \<open>m \<noteq> []\<close>
  have "length rest < length (x # xs)"
    by (metis append_eq_conv_conj length_drop diff_less length_greater_0_conv list.discI)
  then show ?case by simp
next
  case (4 r piece b x xs f pre g m h c rest)
  show ?case by simp
next
  case (5 r piece b x xs f pre g m h c rest)
  show ?case by simp
qed

definition split_js :: "re \<Rightarrow> jsstring \<Rightarrow> jsstring list" where
  "split_js r s =
     (if s = [] then (if matchAt r True [] = None then [[]] else [])
      else splitLoop r [] True s)"

text \<open>\<open>xs.join(sep)\<close>.\<close>

fun join :: "jsstring \<Rightarrow> jsstring list \<Rightarrow> jsstring" where
  "join sep [] = []"
| "join sep [x] = x"
| "join sep (x # xs) = x @ sep @ join sep xs"

section \<open>The debit/credit classifier\<close>

definition debitKeywords :: "jsstring list" where
  "debitKeywords = map js
     [''PRELEVEMENT'', ''VIREMENT EMIS'', ''VIR EMIS'', ''VIR INSTANTANE EMIS'', ''FRAIS'',
      ''COMMISSION'', ''COTISATION'', ''ABONNEMENT'', ''FACTURE'', ''PAIEMENT'', ''RETRAIT'',
      ''CARTE'', ''CB '', ''CHEQUE'', ''ACHAT'', ''LOCATION'', ''LOYER'', ''ASSURANCE'',
      ''MUTUELLE'', ''INTERNET'', ''TELEPHONE'', ''ELECTRICITE'', ''GAZ'', ''EAU'', ''SALAIRE'',
      ''PAIE'', ''REMUNERATION'', ''VIREMENT SALAIRE'', ''VIREMENT PAIE'', ''MASSE SALARIALE'']"

definition creditKeywords :: "jsstring list" where
  "creditKeywords = map js
     [''VIREMENT RECU'', ''VIR RECU'', ''VIR INSTANTANE RECU'', ''REMISE CB'',
      ''VERSEMENT RECU'', ''DEPOT ESPECE'', ''ENCAISSEMENT'']"

definition isDebitTransaction :: "jsstring \<Rightarrow> jsstring \<Rightarrow> bool" where
  "isDebitTransaction line nature =
     (let upperLine = toUpperCase (line @ js '' '' @ nature)
      in if list_ex (\<lambda>keyword. includes_js upperLine keyword) creditKeywords then False
         else if list_ex (\<lambda>keyword. includes_js upperLine keyword) debitKeywords then True
         else True)"

section \<open>The category classifier\<close>

definition costCategories :: "jsstring list" where
  "costCategories = map js
     [''ASSURANCE'', ''CHARGES SOCIALES'', ''CREDIT CABINET'', ''FRAIS BANQUE'', ''GYM'',
      ''INTERNET'', ''LEASING MOTO'', ''LEASING VOITURE'', ''LOGICIEL CABINET'',
      ''LOYER CABINET'', ''MASSE SALARIALE'', ''MATERIEL CABINET'', ''MUTUELLE'',
      ''MUTUELLE SALARI'' @ [CHR 0xC9], ''PREVOYANCE'', ''TPE BANQUE'',
      ''URSSAF/CHARGES SOCIALES'']"

text \<open>
  \<open>fuzzyRules\<close>, in the order of its declaration, which is the order in which
  \<open>Object.entries\<close> lists it.
\<close>

definition fuzzyRules :: "(jsstring \<times> jsstring list) list" where
  "fuzzyRules =
     [(js ''MASSE SALARIALE'', map js [''VIR INSTANTANE EMIS NET'', ''VIREMENT SALAIRE'', ''PAIE'',
         ''REMUNERATION'', ''SALAIRE'']),
      (js ''FRAIS BANQUE'', map js [''FRAIS'', ''BANCAIRE'', ''COMMISSION'', ''AGIOS'',
         ''COTISATION CARTE'', ''TENUE COMPTE'']),
      (js ''INTERNET'', map js [''ORANGE'', ''SFR'', ''BOUYGUES'', ''FREE'', ''TELECOM'',
         ''INTERNET'', ''MOBILE'', ''FIBRE'']),
      (js ''ASSURANCE'', map js [''ASSURANCE'', ''ASSUR'', ''MAIF'', ''MACIF'', ''AXA'',
         ''ALLIANZ'', ''GENERALI'']),
      (js ''LOYER CABINET'', map js [''LOYER'', ''LOCATION'', ''BAIL'', ''IMMOBILIER'',
         ''CABINET'', ''LOCAL'']),
      (js ''GYM'', map js [''GYM'', ''FITNESS'', ''SPORT'', ''CLUB'', ''SALLE DE SPORT'',
         ''MUSCULATION'']),
      (js ''CHARGES SOCIALES'', map js [''URSSAF'', ''SOCIAL'', ''COTISATION'', ''SECU'',
         ''RETRAITE'', ''POLE EMPLOI'']),
      (js ''LEASING MOTO'', map js [''LEASING.*MOTO'', ''LOCATION.*MOTO'', ''SCOOTER'',
         ''DEUX ROUES'']),
      (js ''LEASING VOITURE'', map js [''LEASING.*VOITURE'', ''LOCATION.*VEHICULE'', ''AUTO'',
         ''VOITURE'']),
      (js ''MUTUELLE'', map js [''MUTUELLE'', ''COMPLEMENTAIRE'', ''SANTE'', ''MEDICAL'']),
      (js ''MATERIEL CABINET'', map js [''MATERIEL'', ''EQUIPEMENT'', ''FOURNITURE'',
         ''MOBILIER'']),
      (js ''LOGICIEL CABINET'', map js [''LOGICIEL'', ''SOFTWARE'', ''LICENCE'',
         ''ABONNEMENT.*INFORMATIQUE'']),
      (js ''PREVOYANCE'', map js [''PREVOYANCE'', ''DECES'', ''INVALIDITE'', ''INCAPACITE'']),
      (js ''TPE BANQUE'', map js [''TPE'', ''TERMINAL'', ''PAIEMENT'', ''MONETIQUE''])]"

text \<open>
  \<open>new RegExp(keyword, 'i')\<close> for the keywords of \<open>fuzzyRules\<close>: their only
  metacharacters are \<open>.\<close> (code unit 46) and the postfix \<open>*\<close> (code unit 42).
\<close>

definition keywordAtom :: "nat \<Rightarrow> re" where
  "keywordAtom c = Chr (if c = 46 then Any else LitI c)"

fun compileKeyword :: "jsstring \<Rightarrow> re" where
  "compileKeyword [] = Eps"
| "compileKeyword [c] = keywordAtom c"
| "compileKeyword (c # d # cs) =
     (if d = 42 then Seq (Star (keywordAtom c)) (compileKeyword cs)
      else Seq (keywordAtom c) (compileKeyword (d # cs)))"

definition categorizeTransaction :: "jsstring \<Rightarrow> jsstring \<times> jsstring" where
  "categorizeTransaction nature =
     (let upperNature = toUpperCase nature
      in case find (\<lambda>category. includes_js upperNature category) costCategories of
           Some category \<Rightarrow> (category, js ''high'')
         | None \<Rightarrow>
            (case find (\<lambda>(category, keywords).
                     list_ex (\<lambda>keyword. test (compileKeyword keyword) upperNature) keywords)
                   fuzzyRules of
               Some (category, keywords) \<Rightarrow> (category, js ''medium'')
             | None \<Rightarrow> (js ''AUTRES'', js ''low'')))"

section \<open>Movement type and frequency\<close>

definition determineMovementType :: "jsstring \<Rightarrow> jsstring" where
  "determineMovementType nature =
     (let upperNature = toUpperCase nature
      in if includes_js upperNature (js ''PRELEVEMENT'') then js ''direct_debit''
         else if includes_js upperNature (js ''VIREMENT'') then js ''transfer''
         else if includes_js upperNature (js ''CARTE'') \<or> includes_js upperNature (js ''CB'')
           then js ''card''
         else if includes_js upperNature (js ''CHEQUE'') then js ''check''
         else js ''other'')"

definition monthlyKeywords :: "jsstring list" where
  "monthlyKeywords = map js
     [''LOYER'', ''ABONNEMENT'', ''ASSURANCE'', ''MUTUELLE'', ''INTERNET'', ''TELEPHONE'']"

definition occasionalKeywords :: "jsstring list" where
  "occasionalKeywords = map js [''ACHAT'', ''FACTURE'', ''REPARATION'', ''MAINTENANCE'']"

definition determineFrequency :: "jsstring \<Rightarrow> jsstring" where
  "determineFrequency nature =
     (let upperNature = toUpperCase nature
      in if list_ex (\<lambda>keyword. includes_js upperNature keyword) monthlyKeywords
           then js ''monthly''
         else if list_ex (\<lambda>keyword. includes_js upperNature keyword) occasionalKeywords
           then js ''occasional''
         else js ''unknown'')"

section \<open>The counterparty extractor\<close>

text \<open>
  The expressions of \<open>extractClientName\<close>:
  \<^verbatim>\<open>/POUR:\s*([^0-9\n]+)/i\<close>, \<^verbatim>\<open>/DE:\s*([^0-9\n]+)/i\<close>,
  \<^verbatim>\<open>/^(PRELEVEMENT|VIREMENT|PAIEMENT)\s*/i\<close>, \<^verbatim>\<open>/^(EUROPEEN\s*)?SEPA\s*/i\<close>,
  \<^verbatim>\<open>/^(INSTANTANE\s*)?EMIS\s*NET\s*/i\<close>, \<^verbatim>\<open>/^(DE|DU|LA|LE|LES):\s*/i\<close>,
  \<^verbatim>\<open>/^(POUR|PAR):\s*/i\<close>, \<^verbatim>\<open>/\s+/\<close>, \<^verbatim>\<open>/^\d/\<close>,
  \<^verbatim>\<open>/^(DE|DU|LA|LE|LES|POUR|PAR|ET|OU|AVEC|SANS|REF|DATE|MOTIF)$/i\<close> and
  \<^verbatim>\<open>/[^a-zA-Z\u00C0-\u00FF0-9\s\-\.]/\<close> (the source writes the two Latin-1 letters
  themselves).
\<close>

definition notDigitNL :: re where
  "notDigitNL = Chr (NSet [Rng 48 57, Ch 10])"

definition pourRe :: re where
  "pourRe = Seq (stri (js ''POUR:'')) (Seq (Star space) (Grp 1 (Plus notDigitNL)))"

definition deRe :: re where
  "deRe = Seq (stri (js ''DE:'')) (Seq (Star space) (Grp 1 (Plus notDigitNL)))"

definition prefixMethod :: re where
  "prefixMethod =
     Seq Bol (Seq (Grp 1 (alts (map (\<lambda>w. stri (js w)) [''PRELEVEMENT'', ''VIREMENT'', ''PAIEMENT''])))
                  (Star space))"

definition prefixSepa :: re where
  "prefixSepa =
     Seq Bol (Seq (Opt (Grp 1 (Seq (stri (js ''EUROPEEN'')) (Star space))))
                  (Seq (stri (js ''SEPA'')) (Star space)))"

definition prefixEmisNet :: re where
  "prefixEmisNet =
     Seq Bol (Seq (Opt (Grp 1 (Seq (stri (js ''INSTANTANE'')) (Star space))))
                  (Seq (stri (js ''EMIS'')) (Seq (Star space)
                     (Seq (stri (js ''NET'')) (Star space)))))"

definition prefixArticle :: re where
  "prefixArticle =
     Seq Bol (Seq (Grp 1 (alts (map (\<lambda>w. stri (js w)) [''DE'', ''DU'', ''LA'', ''LE'', ''LES''])))
                  (Seq (Chr (LitI 58)) (Star space)))"

definition prefixPour :: re where
  "prefixPour =
     Seq Bol (Seq (Grp 1 (alts (map (\<lambda>w. stri (js w)) [''POUR'', ''PAR''])))
                  (Seq (Chr (LitI 58)) (Star space)))"

definition startsWithDigit :: re where
  "startsWithDigit = Seq Bol digit"

definition stopWord :: re where
  "stopWord =
     Seq Bol (Seq (Grp 1 (alts (map (\<lambda>w. stri (js w))
        [''DE'', ''DU'', ''LA'', ''LE'', ''LES'', ''POUR'', ''PAR'', ''ET'', ''OU'', ''AVEC'', ''SANS'',
         ''REF'', ''DATE'', ''MOTIF''])))
       Eol)"

definition notNameChar :: re where
  "notNameChar = Chr (NSet [Rng 97 122, Rng 65 90, Rng 192 255, Rng 48 57, Spc, Ch 45, Ch 46])"

text \<open>\<open>match[1].trim().replace(/\s+/g, ' ')\<close>.\<close>

definition cleanMatch :: "caps \<Rightarrow> jsstring" where
  "cleanMatch c = replaceAll (Plus space) (js '' '') True (trim (group c 1))"

definition meaningfulWord :: "jsstring \<Rightarrow> bool" where
  "meaningfulWord word =
     (length word > 2 \<and> match_js startsWithDigit word = None \<and> match_js stopWord word = None)"

definition stripPrefixes :: "jsstring \<Rightarrow> jsstring" where
  "stripPrefixes nature =
     replaceFirst prefixPour []
       (replaceFirst prefixArticle []
         (replaceFirst prefixEmisNet []
           (replaceFirst prefixSepa []
             (replaceFirst prefixMethod [] nature))))"

definition genericName :: "jsstring \<Rightarrow> jsstring" where
  "genericName nature =
     (let cleanNature = stripPrefixes nature;
          words = split_js (Plus space) cleanNature;
          meaningfulWords = filter meaningfulWord words;
          clientName = trim (join (js '' '') (take 5 meaningfulWords));
          cleaned = trim (replaceAll notNameChar (js '' '') True
                            (replaceAll (Plus space) (js '' '') True clientName))
      in if cleaned = [] then js ''Unknown Client'' else cleaned)"

definition extractClientName :: "jsstring \<Rightarrow> jsstring" where
  "extractClientName nature =
     (if includes_js nature (js ''VIR INSTANTANE EMIS NET'') then
        (case match_js pourRe nature of
           Some c \<Rightarrow> cleanMatch c
         | None \<Rightarrow> js ''Salary Payment'')
      else
        (case (if includes_js nature (js ''PRELEVEMENT EUROPEEN'') then match_js deRe nature
               else None) of
           Some c \<Rightarrow> cleanMatch c
         | None \<Rightarrow> genericName nature))"

text \<open>
  The characters of a clean name: the letters, digits, hyphen and period that the last
  replacement of \<open>extractClientName\<close> keeps, without the white space.
\<close>

definition nameChar :: "nat \<Rightarrow> bool" where
  "nameChar c = ((97 \<le> c \<and> c \<le> 122) \<or> (65 \<le> c \<and> c \<le> 90) \<or> (192 \<le> c \<and> c \<le> 255)
                 \<or> (48 \<le> c \<and> c \<le> 57) \<or> c = 45 \<or> c = 46)"

section \<open>The pattern matcher\<close>

text \<open>
  \<^verbatim>\<open>\d{2}\/\d{2}\/\d{4}\<close>, the amount \<^verbatim>\<open>\d{1,3}(?:\s?\d{3})*,\d{2}|\d+,\d{2}\<close> of
  the first and third pattern, the amount \<^verbatim>\<open>\d[\d\s]*,\d{2}\<close> of the second, and the
  three patterns of \<open>parseTransactions\<close>, each with the length of its match array.
\<close>

definition dateRe :: re where
  "dateRe = Seq (Rep2 digit) (Seq slash (Seq (Rep2 digit) (Seq slash (Rep4 digit))))"

definition amountStrict :: re where
  "amountStrict =
     Alt (Seq (Rep1to3 digit) (Seq (Star (Seq (Opt space) (Rep3 digit))) (Seq comma (Rep2 digit))))
         (Seq (Plus digit) (Seq comma (Rep2 digit)))"

definition amountLoose :: re where
  "amountLoose = Seq digit (Seq (Star (Chr (CSet [Dig, Spc]))) (Seq comma (Rep2 digit)))"

definition pattern1 :: re where
  "pattern1 =
     Seq (Grp 1 dateRe) (Seq (Plus space) (Seq (Grp 2 dateRe) (Seq (Plus space)
       (Seq (Grp 3 (LPlus (Chr Any))) (Seq (Plus space) (Grp 4 amountStrict))))))"

definition pattern2 :: re where
  "pattern2 =
     Seq (Grp 1 dateRe) (Seq (Plus space) (Seq (Grp 2 dateRe) (Seq (Plus space)
       (Seq (Grp 3 (LPlus (Chr Any))) (Seq (Plus space) (Grp 4 amountLoose))))))"

definition pattern3 :: re where
  "pattern3 =
     Seq (Grp 1 dateRe) (Seq (Plus space)
       (Seq (Grp 2 (LPlus (Chr Any))) (Seq (Plus space) (Grp 3 amountStrict))))"

definition patterns :: "(re \<times> nat) list" where
  "patterns = [(pattern1, 5), (pattern2, 5), (pattern3, 4)]"

text \<open>
  The expressions of the line scan: \<^verbatim>\<open>/(\d{1,3}(?:\s\d{3})*,\d{2}|\d+,\d{2})/\<close>,
  \<^verbatim>\<open>/\d{2}\/\d{2}\/\d{4}/\<close>, \<^verbatim>\<open>/^\d{2}\/\d{2}\/\d{4}/\<close>, and of
  \<open>parseTransactionLine\<close>: \<^verbatim>\<open>/(\d{2}\/\d{2}\/\d{4})/g\<close> and
  \<^verbatim>\<open>/(\d{1,3}(?:\s\d{3})*,\d{2}|\d+,\d{2}|\d+)/g\<close>.
\<close>

definition amountLine :: re where
  "amountLine =
     Grp 1 (Alt (Seq (Rep1to3 digit) (Seq (Star (Seq space (Rep3 digit))) (Seq comma (Rep2 digit))))
                (Seq (Plus digit) (Seq comma (Rep2 digit))))"

definition dateStart :: re where
  "dateStart = Seq Bol dateRe"

definition datePattern :: re where
  "datePattern = Grp 1 dateRe"

definition amountPattern :: re where
  "amountPattern =
     Grp 1 (Alt (Seq (Rep1to3 digit) (Seq (Star (Seq space (Rep3 digit))) (Seq comma (Rep2 digit))))
           (Alt (Seq (Plus digit) (Seq comma (Rep2 digit)))
                (Plus digit)))"

text \<open>
  The text starts with a date \<open>DD/MM/YYYY\<close>; the text has a date somewhere. They say in
  terms of lists what \<open>dateRe\<close> matches (\<open>bt_dateRe\<close>, \<open>hasDate_test\<close> below).
\<close>

fun startsDate :: "jsstring \<Rightarrow> bool" where
  "startsDate (a # b # c # d # e # f # g # h # i # j # r) =
     (isDigit a \<and> isDigit b \<and> c = 47 \<and> isDigit d \<and> isDigit e \<and> f = 47
      \<and> isDigit g \<and> isDigit h \<and> isDigit i \<and> isDigit j)"
| "startsDate s = False"

fun hasDate :: "jsstring \<Rightarrow> bool" where
  "hasDate [] = False"
| "hasDate (x # xs) = (startsDate (x # xs) \<or> hasDate xs)"

text \<open>
  A raw transaction of the parser. Exactly one of \<open>debit\<close> and \<open>credit\<close> holds the amount
  text, the other is \<open>null\<close> (\<open>None\<close>).
\<close>

record transaction =
  date :: jsstring
  valeur :: jsstring
  nature :: jsstring
  debit :: "jsstring option"
  credit :: "jsstring option"

datatype error = TypeError

text \<open>The truth value of \<open>t.debit\<close>: \<open>null\<close> and the empty string are false.\<close>

definition truthy :: "jsstring option \<Rightarrow> bool" where
  "truthy v = (case v of None \<Rightarrow> False | Some a \<Rightarrow> a \<noteq> [])"

text \<open>
  The duplicate test of the pattern loop, for a match with date \<open>d\<close>, amount \<open>a\<close> and
  description \<open>n\<close> against the transactions found so far.
\<close>

definition isDuplicate :: "transaction list \<Rightarrow> jsstring \<Rightarrow> jsstring \<Rightarrow> jsstring \<Rightarrow> bool" where
  "isDuplicate transactions d a n =
     list_ex (\<lambda>t. date t = d \<and> debit t = Some a \<and>
                  (take 30 (nature t) = take 30 n \<or> includes_js (take 30 n) (take 30 (nature t))))
       transactions"

text \<open>
  The body of the \<open>while\<close> loop once date, value date, description and amount are taken
  from the match \<open>m\<close>.
\<close>

definition pushMatch ::
  "jsstring \<Rightarrow> jsstring \<Rightarrow> jsstring \<Rightarrow> jsstring \<Rightarrow> jsstring \<Rightarrow> transaction list \<Rightarrow> transaction list"
where
  "pushMatch m d v n a transactions =
     (if isDuplicate transactions d a n then transactions
      else if isDebitTransaction m n
        then transactions @ [\<lparr>date = d, valeur = v, nature = trim n, debit = Some a, credit = None\<rparr>]
        else transactions @ [\<lparr>date = d, valeur = v, nature = trim n, debit = None, credit = Some a\<rparr>])"

text \<open>
  The destructuring by \<open>match.length\<close>. With any other length the description stays
  \<open>undefined\<close> and \<open>nature.substring\<close> throws.
\<close>

definition addMatch :: "nat \<Rightarrow> jsstring \<Rightarrow> caps \<Rightarrow> transaction list \<Rightarrow> error + transaction list" where
  "addMatch len m c transactions =
     (if len = 5 then Inr (pushMatch m (group c 1) (group c 2) (group c 3) (group c 4) transactions)
      else if len = 4 then Inr (pushMatch m (group c 1) (group c 1) (group c 2) (group c 3) transactions)
      else Inl TypeError)"

text \<open>
  \<open>while ((match = pattern.exec(text)) !== null)\<close> for a pattern with the \<open>g\<close> flag.
  \<open>input\<close> is the text from \<open>lastIndex\<close> on; after a match \<open>lastIndex\<close> is the end of
  the match, so an empty match would be found again for ever: the loop is a partial
  function, \<open>None\<close> when it does not return.
\<close>

partial_function (option) execLoop ::
  "re \<Rightarrow> nat \<Rightarrow> bool \<Rightarrow> jsstring \<Rightarrow> transaction list \<Rightarrow> (error + transaction list) option"
where
  "execLoop pattern len b input transactions =
     (case exec pattern b input of
        None \<Rightarrow> Some (Inr transactions)
      | Some (pre, m, c, rest) \<Rightarrow>
          (case addMatch len m c transactions of
             Inl e \<Rightarrow> Some (Inl e)
           | Inr transactions' \<Rightarrow>
               execLoop pattern len (b \<and> pre = [] \<and> m = []) rest transactions'))"

declare execLoop.simps [code]

fun forEachPattern ::
  "(re \<times> nat) list \<Rightarrow> jsstring \<Rightarrow> transaction list \<Rightarrow> (error + transaction list) option"
where
  "forEachPattern [] input transactions = Some (Inr transactions)"
| "forEachPattern ((pattern, len) # ps) input transactions =
     (case execLoop pattern len True input transactions of
        None \<Rightarrow> None
      | Some (Inl e) \<Rightarrow> Some (Inl e)
      | Some (Inr transactions') \<Rightarrow> forEachPattern ps input transactions')"

subsection \<open>The line scan\<close>

definition parseTransactionLine :: "jsstring \<Rightarrow> transaction option" where
  "parseTransactionLine line =
     (let dates = matchAll datePattern True line
      in if dates = [] then None
         else
           let amounts = matchAll amountPattern True line
           in if amounts = [] then None
              else
                let d = hd dates;
                    v = (if length dates > 1 then dates ! 1 else hd dates);
                    n0 = foldl (\<lambda>n a. removeFirst a n) (foldl (\<lambda>n d. removeFirst d n) line dates) amounts;
                    n = replaceAll (Plus space) (js '' '') True (trim n0);
                    lastAmount = last amounts;
                    isDebit = isDebitTransaction line n
                in Some \<lparr>date = d, valeur = v, nature = n,
                         debit = (if isDebit then Some lastAmount else None),
                         credit = (if \<not> isDebit then Some lastAmount else None)\<rparr>)"

definition operationsHeader :: "jsstring \<Rightarrow> bool" where
  "operationsHeader line =
     (includes_js line (js (''RELEV'' @ [CHR 0xC9] @ '' DES OP'' @ [CHR 0xC9] @ ''RATIONS''))
      \<or> includes_js line (js ''RELEVE DES OPERATIONS'')
      \<or> (includes_js line (js ''Date'') \<and> includes_js line (js ''Valeur'')))"

text \<open>\<open>if (transaction && transaction.debit) transactions.push(transaction)\<close>.\<close>

definition pushDebit :: "transaction option \<Rightarrow> transaction list \<Rightarrow> transaction list" where
  "pushDebit r transactions =
     (case r of
        None \<Rightarrow> transactions
      | Some t \<Rightarrow> if truthy (debit t) then transactions @ [t] else transactions)"

text \<open>
  The inner \<open>while\<close> loop: up to two following lines that are not empty and do not start
  with a date are added to the line; the result is the text and the final \<open>j\<close>.
\<close>

function combineLines :: "jsstring list \<Rightarrow> nat \<Rightarrow> nat \<Rightarrow> jsstring \<Rightarrow> jsstring \<times> nat" where
  "combineLines lines limit j fullTransaction =
     (if j < length lines \<and> j < limit then
        (let nextLine = trim (lines ! j)
         in if nextLine \<noteq> [] \<and> \<not> test dateStart nextLine
            then combineLines lines limit (j + 1) (fullTransaction @ js '' '' @ nextLine)
            else (fullTransaction, j))
      else (fullTransaction, j))"
  by pat_completeness auto
termination
  by (relation "measure (\<lambda>(lines, limit, j, f). limit - j)") auto

declare combineLines.simps [simp del]
lemma combineLines_index: "j \<le> snd (combineLines lines limit j f)"
proof (induction lines limit j f rule: combineLines.induct)
  case (1 lines limit j f)
  show ?case
  proof (cases "j < length lines \<and> j < limit \<and> trim (lines ! j) \<noteq> []
                \<and> \<not> test dateStart (trim (lines ! j))")
    case True
    then have "snd (combineLines lines limit j f) = snd (combineLines lines limit (j + 1)
        (f @ js '' '' @ trim (lines ! j)))"
      by (subst combineLines.simps) (simp add: Let_def)
    moreover have "j + 1 \<le> snd (combineLines lines limit (j + 1) (f @ js '' '' @ trim (lines ! j)))"
      using True by (intro 1) auto
    ultimately show ?thesis by simp
  next
    case False
    then have "combineLines lines limit j f = (f, j)"
      by (subst combineLines.simps) (auto simp: Let_def)
    then show ?thesis by simp
  qed
qed

text \<open>The \<open>for\<close> loop of \<open>parseTransactionsLineByLine\<close>, from index \<open>i\<close>.\<close>

function lineLoop :: "jsstring list \<Rightarrow> nat \<Rightarrow> bool \<Rightarrow> transaction list \<Rightarrow> transaction list" where
  "lineLoop lines i inOperationsSection transactions =
     (if i < length lines then
        (let line = trim (lines ! i)
         in if operationsHeader line then lineLoop lines (i + 1) True transactions
            else if \<not> inOperationsSection \<or> line = [] then
              lineLoop lines (i + 1) inOperationsSection transactions
            else
              (let transactions1 =
                     (if match_js amountLine line \<noteq> None \<and> test dateRe line
                      then pushDebit (parseTransactionLine line) transactions
                      else transactions)
               in if test dateStart line then
                    (let (fullTransaction, j) = combineLines lines (i + 3) (i + 1) line;
                         transactions2 =
                           (if \<not> test amountLine line
                            then pushDebit (parseTransactionLine fullTransaction) transactions1
                            else transactions1)
                     in lineLoop lines j inOperationsSection transactions2)
                  else lineLoop lines (i + 1) inOperationsSection transactions1))
      else transactions)"
  by pat_completeness auto
termination
proof (relation "measure (\<lambda>(lines, i, inOps, ts). length lines - i)", goal_cases)
  case 1
  show ?case by simp
next
  case (2 lines i inOps ts)
  then show ?case by simp
next
  case (3 lines i inOps ts)
  then show ?case by simp
next
  case (4 lines i inOps ts line ts1 x full j)
  from combineLines_index [of "i + 1" lines "i + 3" line] 4 have "i + 1 \<le> j"
    by (metis snd_conv)
  with 4 show ?case by simp
next
  case (5 lines i inOps ts)
  then show ?case by simp
qed

declare lineLoop.simps [simp del]

definition parseTransactionsLineByLine :: "jsstring list \<Rightarrow> transaction list" where
  "parseTransactionsLineByLine lines = lineLoop lines 0 False []"

subsection \<open>Merging and filtering\<close>

definition isDuplicateLine :: "transaction list \<Rightarrow> transaction \<Rightarrow> bool" where
  "isDuplicateLine transactions newTx =
     list_ex (\<lambda>existingTx. date existingTx = date newTx \<and> debit existingTx = debit newTx \<and>
                  take 20 (nature existingTx) = take 20 (nature newTx))
       transactions"

fun mergeTransactions :: "transaction list \<Rightarrow> transaction list \<Rightarrow> transaction list" where
  "mergeTransactions transactions [] = transactions"
| "mergeTransactions transactions (newTx # rest) =
     mergeTransactions
       (if isDuplicateLine transactions newTx then transactions else transactions @ [newTx]) rest"

definition parseTransactions :: "jsstring \<Rightarrow> (error + transaction list) option" where
  "parseTransactions input =
     (let lines = splitNL input
      in case forEachPattern patterns input [] of
           None \<Rightarrow> None
         | Some (Inl e) \<Rightarrow> Some (Inl e)
         | Some (Inr transactions) \<Rightarrow>
             Some (Inr (filter (\<lambda>t. truthy (debit t))
                          (mergeTransactions transactions (parseTransactionsLineByLine lines)))))"

section \<open>Expense records\<close>

text \<open>
  The object that \<open>processTransactions\<close> builds for a transaction. The number that the
  source parses from the amount text (\<open>parseFloat\<close>) is not stored in it.
\<close>

record expense =
  index :: nat
  date :: jsstring
  center :: jsstring
  client :: jsstring
  amountWithTaxes :: jsstring
  amountWithoutTaxes :: jsstring
  worker :: jsstring
  taxes :: jsstring
  typeOfTransaction :: jsstring
  typeOfMovement :: jsstring
  frequency :: jsstring
  typeOfClient :: jsstring
  service :: jsstring
  confidence :: jsstring
  rawNature :: jsstring

text \<open>
  The callback of \<open>transactions.map\<close>, for the transaction at position \<open>i\<close>.
  \<open>transaction.debit.replace\<close> throws when \<open>debit\<close> is \<open>null\<close>. The euro sign is the code
  unit 8364.
\<close>

definition processTransaction :: "nat \<Rightarrow> transaction \<Rightarrow> error + expense" where
  "processTransaction i t =
     (let categorization = categorizeTransaction (nature t);
          clientName = extractClientName (nature t);
          movementType = determineMovementType (nature t);
          freq = determineFrequency (nature t)
      in case debit t of
           None \<Rightarrow> Inl TypeError
         | Some a \<Rightarrow>
             (let amountStr = replaceAll space [] True a
              in Inr \<lparr>index = i + 1, date = transaction.date t, center = [], client = clientName,
                      amountWithTaxes = amountStr @ [8364], amountWithoutTaxes = [],
                      worker = [], taxes = [], typeOfTransaction = js ''cost'',
                      typeOfMovement = movementType, frequency = freq,
                      typeOfClient = js ''service'', service = fst categorization,
                      confidence = snd categorization, rawNature = nature t\<rparr>))"

fun processFrom :: "nat \<Rightarrow> transaction list \<Rightarrow> error + expense list" where
  "processFrom i [] = Inr []"
| "processFrom i (t # ts) =
     (case processTransaction i t of
        Inl e \<Rightarrow> Inl e
      | Inr r \<Rightarrow> (case processFrom (i + 1) ts of Inl e \<Rightarrow> Inl e | Inr rs \<Rightarrow> Inr (r # rs)))"

definition processTransactions :: "transaction list \<Rightarrow> error + expense list" where
  "processTransactions transactions = processFrom 0 transactions"

text \<open>
  The core pipeline: \<open>parseTransactions\<close> followed by \<open>processTransactions\<close>. The value is
  \<open>None\<close> when a loop does not return, \<open>Some (Inl e)\<close> when \<open>e\<close> is thrown, and
  \<open>Some (Inr records)\<close> when the records are returned.
\<close>

definition pipeline :: "jsstring \<Rightarrow> (error + expense list) option" where
  "pipeline input =
     (case parseTransactions input of
        None \<Rightarrow> None
      | Some (Inl e) \<Rightarrow> Some (Inl e)
      | Some (Inr transactions) \<Rightarrow> Some (processTransactions transactions))"

section \<open>Invariant of the parser and the first scenario\<close>

text \<open>
  A transaction with a debit amount has no credit amount and comes from a (line,
  description) pair that the classifier took for a debit; its description is that
  description, trimmed in the pattern loop. \<open>classified\<close> says so of every transaction of
  a list.
\<close>

definition keptAsDebit :: "transaction \<Rightarrow> bool" where
  "keptAsDebit t =
     (credit t = None \<and>
      (\<exists>line n. isDebitTransaction line n \<and> (nature t = trim n \<or> nature t = n)))"

definition classified :: "transaction list \<Rightarrow> bool" where
  "classified ts = (\<forall>t\<in>set ts. debit t \<noteq> None \<longrightarrow> keptAsDebit t)"

text \<open>The input of scenario 1 of the specification, and what the code makes of it.\<close>

definition scenario1 :: jsstring where
  "scenario1 =
     js ''02/01/2025 02/01/2025 VIR INSTANTANE EMIS NET POUR: M. JORGE GOENAGA PEREZ 2 000,00''"

definition scenario1_tx1 :: transaction where
  "scenario1_tx1 =
     \<lparr>transaction.date = js ''02/01/2025'', valeur = js ''02/01/2025'',
      nature = js ''VIR INSTANTANE EMIS NET POUR: M. JORGE GOENAGA PEREZ'',
      debit = Some (js ''2 000,00''), credit = None\<rparr>"

definition scenario1_tx2 :: transaction where
  "scenario1_tx2 =
     \<lparr>transaction.date = js ''02/01/2025'', valeur = js ''02/01/2025'',
      nature = js ''02/01/2025 VIR INSTANTANE EMIS NET POUR: M. JORGE GOENAGA PEREZ'',
      debit = Some (js ''2 000,00''), credit = None\<rparr>"

definition scenario1_record1 :: expense where
  "scenario1_record1 =
     \<lparr>index = 1, date = js ''02/01/2025'', center = [], client = js ''M. JORGE GOENAGA PEREZ'',
      amountWithTaxes = js ''2000,00'' @ [8364], amountWithoutTaxes = [], worker = [],
      taxes = [], typeOfTransaction = js ''cost'', typeOfMovement = js ''other'',
      frequency = js ''unknown'', typeOfClient = js ''service'',
      service = js ''MASSE SALARIALE'', confidence = js ''medium'',
      rawNature = js ''VIR INSTANTANE EMIS NET POUR: M. JORGE GOENAGA PEREZ''\<rparr>"

definition scenario1_record2 :: expense where
  "scenario1_record2 =
     \<lparr>index = 2, date = js ''02/01/2025'', center = [], client = js ''M. JORGE GOENAGA PEREZ'',
      amountWithTaxes = js ''2000,00'' @ [8364], amountWithoutTaxes = [], worker = [],
      taxes = [], typeOfTransaction = js ''cost'', typeOfMovement = js ''other'',
      frequency = js ''unknown'', typeOfClient = js ''service'',
      service = js ''MASSE SALARIALE'', confidence = js ''medium'',
      rawNature = js ''02/01/2025 VIR INSTANTANE EMIS NET POUR: M. JORGE GOENAGA PEREZ''\<rparr>"





text \<open>
  A statement of two lines, the header of the operations table and a row with a date and
  no amount, and what the code makes of it.
\<close>

definition datedRow :: jsstring where
  "datedRow = js ''Date Valeur'' @ [10] @ js ''02/01/2025 hello''"

definition datedRow_tx :: transaction where
  "datedRow_tx =
     \<lparr>transaction.date = js ''02/01/2025'', valeur = js ''02/01/2025'',
      nature = js ''hello'', debit = Some (js ''2025''), credit = None\<rparr>"

definition datedRow_record :: expense where
  "datedRow_record =
     \<lparr>index = 1, date = js ''02/01/2025'', center = [], client = js ''hello'',
      amountWithTaxes = js ''2025'' @ [8364], amountWithoutTaxes = [], worker = [],
      taxes = [], typeOfTransaction = js ''cost'', typeOfMovement = js ''other'',
      frequency = js ''unknown'', typeOfClient = js ''service'',
      service = js ''AUTRES'', confidence = js ''low'',
      rawNature = js ''hello''\<rparr>"

section \<open>The category enumeration of the specification\<close>

text \<open>
  The fixed enumeration of categories as the glossary of the specification lists it. It
  is not a table of the source: \<open>costCategories\<close> and \<open>fuzzyRules\<close> above are.
\<close>

definition glossaryCategories :: "jsstring list" where
  "glossaryCategories = map js
     [''MASSE SALARIALE'', ''FRAIS BANQUE'', ''INTERNET'', ''ASSURANCE'', ''LOYER CABINET'',
      ''GYM'', ''CHARGES SOCIALES'', ''LEASING MOTO'', ''LEASING VOITURE'', ''MUTUELLE'',
      ''MATERIEL CABINET'', ''LOGICIEL CABINET'', ''PREVOYANCE'', ''TPE BANQUE'', ''AUTRES'']"


section \<open>Properties of the classifiers\<close>

subsection \<open>Strings and lists\<close>

lemma js_eq_iff: "js s = js t \<longleftrightarrow> s = t"
  unfolding js_def by (simp add: inj_map_eq_map [OF inj_of_char])



lemma includes_js_sublist: "includes_js s k = sublist k s"
  by (induction s) (auto simp: sublist_Cons_right)

lemma includes_js_trans: "includes_js s k \<Longrightarrow> includes_js k k' \<Longrightarrow> includes_js s k'"
  unfolding includes_js_sublist by (rule sublist_order.order_trans)

lemma find_SomeD2: "find P xs = Some x \<Longrightarrow> x \<in> set xs \<and> P x"
  by (induction xs) (auto split: if_splits)

lemma find_not_shadowed:
  "find P xs = Some x \<Longrightarrow> a \<in> set (takeWhile (\<lambda>y. y \<noteq> x) xs) \<Longrightarrow> \<not> P a"
proof (induction xs)
  case Nil
  then show ?case by simp
next
  case (Cons y ys)
  show ?case
  proof (cases "P y")
    case True
    with Cons.prems show ?thesis by simp
  next
    case False
    have f: "find P ys = Some x" using Cons.prems(1) False by simp
    then have "P x" using find_SomeD2 by fast
    with False have "y \<noteq> x" by auto
    with Cons.prems(2) have "a = y \<or> a \<in> set (takeWhile (\<lambda>y. y \<noteq> x) ys)" by auto
    then show ?thesis using False Cons.IH [OF f] by auto
  qed
qed

subsection \<open>Category classifier\<close>

lemma costCategories_filtered:
  "set (filter (\<lambda>c. c \<noteq> js (''MUTUELLE SALARI'' @ [CHR 0xC9]) \<and> c \<noteq> js ''URSSAF/CHARGES SOCIALES'')
          costCategories)
   \<subseteq> set glossaryCategories \<union> {js ''CREDIT CABINET''}"
  unfolding costCategories_def glossaryCategories_def by (simp add: js_eq_iff)

lemma costCategories_reachable:
  assumes "x \<in> set costCategories"
    and "x \<noteq> js (''MUTUELLE SALARI'' @ [CHR 0xC9])" and "x \<noteq> js ''URSSAF/CHARGES SOCIALES''"
  shows "x \<in> set glossaryCategories \<union> {js ''CREDIT CABINET''}"
proof -
  have "x \<in> set (filter (\<lambda>c. c \<noteq> js (''MUTUELLE SALARI'' @ [CHR 0xC9]) \<and> c \<noteq> js ''URSSAF/CHARGES SOCIALES'')
          costCategories)"
    using assms by (simp only: set_filter mem_Collect_eq simp_thms)
  then show ?thesis using costCategories_filtered by (rule set_mp [rotated])
qed

lemma fuzzyRules_categories: "set (map fst fuzzyRules) \<subseteq> set glossaryCategories"
  unfolding fuzzyRules_def glossaryCategories_def by (simp add: js_eq_iff)


lemma mutuelle_first:
  "includes_js u (js (''MUTUELLE SALARI'' @ [CHR 0xC9])) \<Longrightarrow> includes_js u (js ''MUTUELLE'')"
  by (erule includes_js_trans) (simp add: js_def)

lemma charges_first:
  "includes_js u (js ''URSSAF/CHARGES SOCIALES'') \<Longrightarrow> includes_js u (js ''CHARGES SOCIALES'')"
  by (erule includes_js_trans) (simp add: js_def)

lemma find_costCategories:
  assumes "find (\<lambda>category. includes_js u category) costCategories = Some x"
  shows "x \<in> set glossaryCategories \<union> {js ''CREDIT CABINET''}"
proof -
  have mem: "x \<in> set costCategories" and inc: "includes_js u x"
    using find_SomeD2 [OF assms] by simp_all
  have "x \<noteq> js (''MUTUELLE SALARI'' @ [CHR 0xC9])"
  proof
    assume eq: "x = js (''MUTUELLE SALARI'' @ [CHR 0xC9])"
    have "js ''MUTUELLE'' \<in> set (takeWhile (\<lambda>y. y \<noteq> x) costCategories)"
      unfolding eq costCategories_def by (simp add: js_eq_iff)
    from find_not_shadowed [OF assms this] mutuelle_first inc eq show False by blast
  qed
  moreover have "x \<noteq> js ''URSSAF/CHARGES SOCIALES''"
  proof
    assume eq: "x = js ''URSSAF/CHARGES SOCIALES''"
    have "js ''CHARGES SOCIALES'' \<in> set (takeWhile (\<lambda>y. y \<noteq> x) costCategories)"
      unfolding eq costCategories_def by (simp add: js_eq_iff)
    from find_not_shadowed [OF assms this] charges_first inc eq show False by blast
  qed
  ultimately show ?thesis using mem by (intro costCategories_reachable)
qed

lemma find_fuzzyRules:
  assumes "find P fuzzyRules = Some (category, keywords)"
  shows "category \<in> set glossaryCategories"
proof -
  have "(category, keywords) \<in> set fuzzyRules"
    using find_SomeD2 [OF assms] by simp
  then have "category \<in> set (map fst fuzzyRules)" by force
  then show ?thesis using fuzzyRules_categories by (rule set_mp [rotated])
qed

lemma confidence_levels:
  "js ''high'' \<in> {js ''high'', js ''medium'', js ''low''}"
  "js ''medium'' \<in> {js ''high'', js ''medium'', js ''low''}"
  "js ''low'' \<in> {js ''high'', js ''medium'', js ''low''}"
  by simp_all

subsection \<open>Upper-casing\<close>

text \<open>
  The rows of the table ascend, so a row decides the upper-case form of every code point
  of its range wherever it stands in the table, and a code point in no range is its own
  upper-case form. The rows map 1525 code points.
\<close>

lemma ascending_upperCasing: "ascending 0 upperCasing"
  by (simp add: upperCasing_def)

lemma mapped_upperCasing: "sum_list (map mapped upperCasing) = 1525"
  by (simp add: upperCasing_def)

lemma ascending_low: "ascending n rows \<Longrightarrow> row \<in> set rows \<Longrightarrow> n \<le> low row"
proof (induction rows arbitrary: n)
  case Nil
  then show ?case by simp
next
  case (Cons r rows)
  show ?case
  proof (cases "row = r")
    case True
    with Cons.prems show ?thesis by simp
  next
    case False
    with Cons.prems have "ascending (Suc (high r)) rows" and "row \<in> set rows" by simp_all
    from Cons.IH [OF this] Cons.prems(1) show ?thesis by simp
  qed
qed

lemma lookupUpper_row:
  assumes "ascending n rows" and "row \<in> set rows" and "low row \<le> c" and "c \<le> high row"
  shows "lookupUpper rows c = lookupUpper [row] c"
  using assms
proof (induction rows arbitrary: n)
  case Nil
  then show ?case by simp
next
  case (Cons r rows)
  show ?case
  proof (cases "row = r")
    case True
    with Cons.prems(3,4) show ?thesis by (cases r) auto
  next
    case False
    with Cons.prems have a: "ascending (Suc (high r)) rows" and m: "row \<in> set rows" by simp_all
    from ascending_low [OF a m] Cons.prems(3) have "high r < c" by simp
    moreover from Cons.prems(1) have "low r \<le> high r" by simp
    ultimately have "lookupUpper (r # rows) c = lookupUpper rows c" by (cases r) auto
    with Cons.IH [OF a m Cons.prems(3,4)] show ?thesis by simp
  qed
qed

lemma upperPoint_row:
  "row \<in> set upperCasing \<Longrightarrow> low row \<le> c \<Longrightarrow> c \<le> high row \<Longrightarrow>
   upperPoint c = lookupUpper [row] c"
  unfolding upperPoint_def by (rule lookupUpper_row [OF ascending_upperCasing])

lemma lookupUpper_other:
  "\<forall>row\<in>set rows. c < low row \<or> high row < c \<Longrightarrow> lookupUpper rows c = [c]"
proof (induction rows)
  case Nil
  show ?case by simp
next
  case (Cons r rows)
  then show ?case by (cases r) auto
qed

text \<open>
  A code unit that is not a lead surrogate is a code point by itself, so upper-casing
  goes code unit by code unit on a text without surrogates.
\<close>

lemma codePoints_Cons: "\<not> isLead c \<Longrightarrow> codePoints (c # cs) = c # codePoints cs"
  by (cases cs) simp_all

lemma toUpperCase_Nil: "toUpperCase [] = []"
  by (simp add: toUpperCase_def)

lemma toUpperCase_Cons:
  "\<not> isLead c \<Longrightarrow> toUpperCase (c # cs) = concat (map codeUnits (upperPoint c)) @ toUpperCase cs"
  by (simp add: toUpperCase_def codePoints_Cons)

text \<open>
  Basic Latin and Latin-1: the letters \<open>a\<close> to \<open>z\<close> and \<open>U+00E0\<close> to \<open>U+00FE\<close> (but
  the division sign) move down by 32, \<open>U+00B5\<close> becomes \<open>U+039C\<close>, \<open>U+00DF\<close> becomes
  \<open>SS\<close>, \<open>U+00FF\<close> becomes \<open>U+0178\<close>, and every other code point stays.
\<close>

lemma upperPoint_latin1:
  "c < 256 \<Longrightarrow> upperPoint c =
     (if 97 \<le> c \<and> c \<le> 122 then [c - 32]
      else if c = 181 then [924]
      else if c = 223 then [83, 83]
      else if 224 \<le> c \<and> c \<le> 254 \<and> c \<noteq> 247 then [c - 32]
      else if c = 255 then [376]
      else [c])"
  by (simp add: upperPoint_def upperCasing_def)

lemma toUpperCase_ascii:
  "\<forall>c\<in>set s. c < 128 \<Longrightarrow>
   toUpperCase s = map (\<lambda>c. if 97 \<le> c \<and> c \<le> 122 then c - 32 else c) s"
proof (induction s)
  case Nil
  show ?case by (simp add: toUpperCase_Nil)
next
  case (Cons c s)
  then have "c < 128" by simp
  then have "\<not> isLead c" and "c < 256" by (simp_all add: isLead_def)
  with Cons show ?case
    by (auto simp: toUpperCase_Cons upperPoint_latin1 codeUnits_def)
qed

text \<open>
  The code points outside Basic Latin whose upper-case form has a Basic Latin letter:
  \<open>U+00DF\<close> above, the dotless i, the long s, five letters with a combining mark or a
  modifier, and the ligatures \<open>U+FB00\<close> to \<open>U+FB06\<close>.
\<close>

lemma upperPoint_to_ascii:
  "upperPoint 0x0131 = [0x49]"
  "upperPoint 0x0149 = [0x02BC, 0x4E]"
  "upperPoint 0x017F = [0x53]"
  "upperPoint 0x01F0 = [0x4A, 0x030C]"
  "upperPoint 0x1E96 = [0x48, 0x0331]"
  "upperPoint 0x1E97 = [0x54, 0x0308]"
  "upperPoint 0x1E98 = [0x57, 0x030A]"
  "upperPoint 0x1E99 = [0x59, 0x030A]"
  "upperPoint 0x1E9A = [0x41, 0x02BE]"
  "upperPoint 0xFB00 = [0x46, 0x46]"
  "upperPoint 0xFB01 = [0x46, 0x49]"
  "upperPoint 0xFB02 = [0x46, 0x4C]"
  "upperPoint 0xFB03 = [0x46, 0x46, 0x49]"
  "upperPoint 0xFB04 = [0x46, 0x46, 0x4C]"
  "upperPoint 0xFB05 = [0x53, 0x54]"
  "upperPoint 0xFB06 = [0x53, 0x54]"
  by (simp_all add: upperPoint_def upperCasing_def)

text \<open>
  A letter of the supplementary planes is two code units: \<open>U+10428\<close> becomes \<open>U+10400\<close>.
  A surrogate that stands alone stays.
\<close>

lemma toUpperCase_supplementary:
  "toUpperCase [0xD801, 0xDC28] = [0xD801, 0xDC00]"
  "toUpperCase [0xDC28, 0x61] = [0xDC28, 0x41]"
  "toUpperCase [0xD801, 0x61] = [0xD801, 0x41]"
  by (simp_all add: toUpperCase_def isLead_def isTrail_def codeUnits_def upperPoint_def
        upperCasing_def)

text \<open>Case folding never takes a code unit from 128 on to Basic Latin.\<close>

lemma canonicalize_high: "128 \<le> y \<Longrightarrow> 128 \<le> canonicalize y"
  by (simp add: canonicalize_def split: list.splits)

lemma canonicalize_low:
  "y < 128 \<Longrightarrow> canonicalize y = (if 97 \<le> y \<and> y \<le> 122 then y - 32 else y)"
  by (auto simp: canonicalize_def upperPoint_latin1 codeUnits_def)

lemmas eval_strings = js_def toUpperCase_Nil toUpperCase_Cons isLead_def upperPoint_latin1
  codeUnits_def isSpace_def isDigit_def isLineTerminator_def canonicalize_def

lemmas eval_regex = matchAt_def test_def keywordAtom_def

text \<open>
  Claim C1, as the code has it. \<open>categorizeTransaction\<close> returns, for every description, a
  category of the glossary's enumeration or \<open>CREDIT CABINET\<close>, and a confidence among
  \<open>high\<close>, \<open>medium\<close> and \<open>low\<close>. The exact-match table \<open>costCategories\<close> has three
  names that the glossary does not list; \<open>MUTUELLE SALARIE\<close> (with \<open>U+00C9\<close>) and
  \<open>URSSAF/CHARGES SOCIALES\<close> are never returned, because \<open>MUTUELLE\<close> and
  \<open>CHARGES SOCIALES\<close> come first in the table and occur in them.
\<close>

theorem categorizeTransaction_closed:
  "fst (categorizeTransaction description) \<in> set glossaryCategories \<union> {js ''CREDIT CABINET''}
   \<and> snd (categorizeTransaction description) \<in> {js ''high'', js ''medium'', js ''low''}"
proof (cases "find (\<lambda>category. includes_js (toUpperCase description) category) costCategories")
  case (Some x)
  then have "categorizeTransaction description = (x, js ''high'')"
    by (simp add: categorizeTransaction_def)
  with find_costCategories [OF Some] confidence_levels show ?thesis by simp
next
  case None
  note exact = this
  show ?thesis
  proof (cases "find (\<lambda>(category, keywords).
            list_ex (\<lambda>keyword. test (compileKeyword keyword) (toUpperCase description)) keywords)
          fuzzyRules")
    case None
    with exact have "categorizeTransaction description = (js ''AUTRES'', js ''low'')"
      by (simp add: categorizeTransaction_def)
    moreover have "js ''AUTRES'' \<in> set glossaryCategories"
      unfolding glossaryCategories_def by (simp add: js_eq_iff)
    ultimately show ?thesis using confidence_levels by simp
  next
    case (Some ck)
    obtain category kws where ck: "ck = (category, kws)" by (cases ck)
    with Some exact have "categorizeTransaction description = (category, js ''medium'')"
      by (simp add: categorizeTransaction_def)
    with find_fuzzyRules [OF Some [unfolded ck]] confidence_levels show ?thesis by simp
  qed
qed

text \<open>
  Claim C1 as stated fails: the description \<open>CREDIT CABINET\<close> is given the category
  \<open>CREDIT CABINET\<close> with confidence \<open>high\<close>, and this name is not in the glossary's
  enumeration.
\<close>

theorem categorizeTransaction_outside_glossary:
  "categorizeTransaction (js ''CREDIT CABINET'') = (js ''CREDIT CABINET'', js ''high'')
   \<and> js ''CREDIT CABINET'' \<notin> set glossaryCategories"
  by (simp add: categorizeTransaction_def costCategories_def glossaryCategories_def eval_strings)

subsection \<open>Debit/credit classifier\<close>

text \<open>
  Claim C3. The rules of \<open>isDebitTransaction\<close> apply in order on the upper-cased
  concatenation of line, a space and description: a credit keyword gives CREDIT (the result
  \<open>False\<close>) whether or not a debit keyword occurs too; otherwise a debit keyword gives
  DEBIT (\<open>True\<close>); otherwise the result is DEBIT by default.
\<close>

theorem isDebitTransaction_rules:
  "let u = toUpperCase (line @ js '' '' @ description);
       credit = (includes_js u (js ''VIREMENT RECU'') \<or> includes_js u (js ''VIR RECU'')
                 \<or> includes_js u (js ''VIR INSTANTANE RECU'') \<or> includes_js u (js ''REMISE CB'')
                 \<or> includes_js u (js ''VERSEMENT RECU'') \<or> includes_js u (js ''DEPOT ESPECE'')
                 \<or> includes_js u (js ''ENCAISSEMENT''));
       debit = list_ex (\<lambda>keyword. includes_js u keyword) debitKeywords
   in (credit \<longrightarrow> \<not> isDebitTransaction line description)
      \<and> (\<not> credit \<and> debit \<longrightarrow> isDebitTransaction line description)
      \<and> (\<not> credit \<and> \<not> debit \<longrightarrow> isDebitTransaction line description)"
  unfolding isDebitTransaction_def creditKeywords_def Let_def by simp

text \<open>
  A line with both the credit keyword \<open>VIR RECU\<close> and the debit keyword \<open>LOYER\<close> is
  a credit; a line with the debit keyword \<open>PRELEVEMENT\<close> and no credit keyword is a
  debit; a line with no keyword at all is a debit. The keywords are looked for in the
  upper-cased text: \<open>prelevement\<close> in small letters is the debit keyword, and
  \<open>vir recu\<close> written with the dotless i (\<open>U+0131\<close>, whose upper-case form is \<open>I\<close>) is
  the credit keyword.
\<close>

theorem isDebitTransaction_rules_witness:
  "includes_js (toUpperCase (js ''VIR RECU LOYER'' @ js '' '' @ js ''LOYER'')) (js ''VIR RECU'')
   \<and> list_ex (\<lambda>keyword. includes_js (toUpperCase (js ''VIR RECU LOYER'' @ js '' '' @ js ''LOYER'')) keyword)
        debitKeywords
   \<and> \<not> isDebitTransaction (js ''VIR RECU LOYER'') (js ''LOYER'')
   \<and> list_ex (\<lambda>keyword. includes_js (toUpperCase (js ''PRELEVEMENT EDF'' @ js '' '' @ js ''EDF'')) keyword)
        debitKeywords
   \<and> isDebitTransaction (js ''PRELEVEMENT EDF'') (js ''EDF'')
   \<and> \<not> list_ex (\<lambda>keyword. includes_js (toUpperCase (js ''XYZ 12,00'' @ js '' '' @ js ''XYZ'')) keyword)
        debitKeywords
   \<and> isDebitTransaction (js ''XYZ 12,00'') (js ''XYZ'')
   \<and> includes_js (toUpperCase (js ''prelevement edf'' @ js '' '' @ js ''edf'')) (js ''PRELEVEMENT'')
   \<and> isDebitTransaction (js ''prelevement edf'') (js ''edf'')
   \<and> toUpperCase ((js ''v'' @ [0x131] @ js ''r recu 10,00'') @ js '' '' @ js ''Dupont'')
       = js ''VIR RECU 10,00 DUPONT''
   \<and> \<not> isDebitTransaction (js ''v'' @ [0x131] @ js ''r recu 10,00'') (js ''Dupont'')"
proof -
  let ?u1 = "toUpperCase (js ''VIR RECU LOYER'' @ js '' '' @ js ''LOYER'')"
  let ?u2 = "toUpperCase (js ''PRELEVEMENT EDF'' @ js '' '' @ js ''EDF'')"
  let ?u3 = "toUpperCase (js ''XYZ 12,00'' @ js '' '' @ js ''XYZ'')"
  let ?u4 = "toUpperCase (js ''prelevement edf'' @ js '' '' @ js ''edf'')"
  let ?l5 = "js ''v'' @ [0x131] @ js ''r recu 10,00''"
  let ?u5 = "toUpperCase (?l5 @ js '' '' @ js ''Dupont'')"
  have c1: "includes_js ?u1 (js ''VIR RECU'')"
    by (simp add: eval_strings)
  have d1: "list_ex (\<lambda>keyword. includes_js ?u1 keyword) debitKeywords"
    by (simp add: eval_strings debitKeywords_def)
  have c2: "\<not> list_ex (\<lambda>keyword. includes_js ?u2 keyword) creditKeywords"
    by (simp add: eval_strings creditKeywords_def)
  have d2: "list_ex (\<lambda>keyword. includes_js ?u2 keyword) debitKeywords"
    by (simp add: eval_strings debitKeywords_def)
  have c3: "\<not> list_ex (\<lambda>keyword. includes_js ?u3 keyword) creditKeywords"
    by (simp add: eval_strings creditKeywords_def)
  have d3: "\<not> list_ex (\<lambda>keyword. includes_js ?u3 keyword) debitKeywords"
    by (simp add: eval_strings debitKeywords_def)
  have c4: "\<not> list_ex (\<lambda>keyword. includes_js ?u4 keyword) creditKeywords"
    by (simp add: eval_strings creditKeywords_def)
  have d4: "list_ex (\<lambda>keyword. includes_js ?u4 keyword) debitKeywords"
    by (simp add: eval_strings debitKeywords_def)
  have p4: "includes_js ?u4 (js ''PRELEVEMENT'')"
    by (simp add: eval_strings)
  have u5: "?u5 = js ''VIR RECU 10,00 DUPONT''"
    by (simp add: eval_strings upperPoint_to_ascii)
  have c5: "includes_js ?u5 (js ''VIR RECU'')"
    unfolding u5 by (simp add: js_def)
  from c1 isDebitTransaction_rules [of "js ''VIR RECU LOYER''" "js ''LOYER''"]
  have r1: "\<not> isDebitTransaction (js ''VIR RECU LOYER'') (js ''LOYER'')"
    unfolding Let_def by blast
  from c2 d2 isDebitTransaction_rules [of "js ''PRELEVEMENT EDF''" "js ''EDF''"]
  have r2: "isDebitTransaction (js ''PRELEVEMENT EDF'') (js ''EDF'')"
    unfolding Let_def creditKeywords_def by simp
  from c3 d3 isDebitTransaction_rules [of "js ''XYZ 12,00''" "js ''XYZ''"]
  have r3: "isDebitTransaction (js ''XYZ 12,00'') (js ''XYZ'')"
    unfolding Let_def creditKeywords_def by simp
  from c4 d4 isDebitTransaction_rules [of "js ''prelevement edf''" "js ''edf''"]
  have r4: "isDebitTransaction (js ''prelevement edf'') (js ''edf'')"
    unfolding Let_def creditKeywords_def by simp
  from c5 isDebitTransaction_rules [of ?l5 "js ''Dupont''"]
  have r5: "\<not> isDebitTransaction ?l5 (js ''Dupont'')"
    unfolding Let_def by blast
  from c1 d1 r1 d2 r2 d3 r3 p4 r4 u5 r5 show ?thesis by (intro conjI)
qed

subsection \<open>Frequency\<close>

text \<open>
  Claim C10. \<open>determineFrequency\<close> returns \<open>monthly\<close> exactly when the upper-cased
  description contains one of the six monthly keywords, \<open>occasional\<close> exactly when it
  contains none of them but one of the four occasional keywords, and \<open>unknown\<close> exactly
  when it contains none of the ten; the result is always one of the three values.
\<close>

theorem determineFrequency_rules:
  "let u = toUpperCase description;
       monthly = (includes_js u (js ''LOYER'') \<or> includes_js u (js ''ABONNEMENT'')
                  \<or> includes_js u (js ''ASSURANCE'') \<or> includes_js u (js ''MUTUELLE'')
                  \<or> includes_js u (js ''INTERNET'') \<or> includes_js u (js ''TELEPHONE''));
       occasional = (includes_js u (js ''ACHAT'') \<or> includes_js u (js ''FACTURE'')
                  \<or> includes_js u (js ''REPARATION'') \<or> includes_js u (js ''MAINTENANCE''))
   in (determineFrequency description = js ''monthly'') = monthly
      \<and> (determineFrequency description = js ''occasional'') = (\<not> monthly \<and> occasional)
      \<and> (determineFrequency description = js ''unknown'') = (\<not> monthly \<and> \<not> occasional)
      \<and> determineFrequency description \<in> {js ''monthly'', js ''occasional'', js ''unknown''}"
  unfolding determineFrequency_def monthlyKeywords_def occasionalKeywords_def Let_def
  by (simp add: js_eq_iff)

text \<open>
  A description with a monthly and an occasional keyword is monthly; the keywords are
  looked for in the upper-cased text, so small letters count, and so does \<open>internet\<close>
  written with the dotless i (\<open>U+0131\<close>); an occasional keyword alone gives
  \<open>occasional\<close>, and no keyword gives \<open>unknown\<close>.
\<close>

theorem determineFrequency_rules_witness:
  "determineFrequency (js ''Achat - loyer du cabinet'') = js ''monthly''
   \<and> toUpperCase ([0x131] @ js ''nternet fibre'') = js ''INTERNET FIBRE''
   \<and> determineFrequency ([0x131] @ js ''nternet fibre'') = js ''monthly''
   \<and> determineFrequency (js ''facture 12'') = js ''occasional''
   \<and> determineFrequency (js ''XYZ'') = js ''unknown''"
proof -
  let ?d2 = "[0x131] @ js ''nternet fibre''"
  have m1: "includes_js (toUpperCase (js ''Achat - loyer du cabinet'')) (js ''LOYER'')"
    by (simp add: eval_strings)
  have u2: "toUpperCase ?d2 = js ''INTERNET FIBRE''"
    by (simp add: eval_strings upperPoint_to_ascii)
  have m2: "includes_js (toUpperCase ?d2) (js ''INTERNET'')"
    unfolding u2 by (simp add: js_def)
  have m3: "\<not> list_ex (\<lambda>keyword. includes_js (toUpperCase (js ''facture 12'')) keyword)
                 monthlyKeywords"
    by (simp add: eval_strings monthlyKeywords_def)
  have o3: "includes_js (toUpperCase (js ''facture 12'')) (js ''FACTURE'')"
    by (simp add: eval_strings)
  have m4: "\<not> list_ex (\<lambda>keyword. includes_js (toUpperCase (js ''XYZ'')) keyword) monthlyKeywords"
    by (simp add: eval_strings monthlyKeywords_def)
  have o4: "\<not> list_ex (\<lambda>keyword. includes_js (toUpperCase (js ''XYZ'')) keyword)
                 occasionalKeywords"
    by (simp add: eval_strings occasionalKeywords_def)
  from m1 determineFrequency_rules [of "js ''Achat - loyer du cabinet''"]
  have r1: "determineFrequency (js ''Achat - loyer du cabinet'') = js ''monthly''"
    unfolding Let_def by blast
  from m2 determineFrequency_rules [of ?d2]
  have r2: "determineFrequency ?d2 = js ''monthly''"
    unfolding Let_def by blast
  from m3 o3 determineFrequency_rules [of "js ''facture 12''"]
  have r3: "determineFrequency (js ''facture 12'') = js ''occasional''"
    unfolding Let_def monthlyKeywords_def by simp
  from m4 o4 determineFrequency_rules [of "js ''XYZ''"]
  have r4: "determineFrequency (js ''XYZ'') = js ''unknown''"
    unfolding Let_def monthlyKeywords_def occasionalKeywords_def by simp
  from r1 u2 r2 r3 r4 show ?thesis by (intro conjI)
qed

section \<open>Properties of the matcher\<close>

text \<open>An expression that cannot match the empty text consumes input whenever it matches.\<close>

lemma bt_consumes:
  "bt k c b s = Some (c', b', s') \<Longrightarrow> list_ex consumesFrame k \<Longrightarrow> length s' < length s"
proof (induction k c b s rule: bt.induct)
  case (5 cl k c b s)
  then obtain y ys where s: "s = y # ys" and "bt k c False ys = Some (c', b', s')"
    by (auto split: list.splits if_splits)
  from bt_suffix [OF this(2)] have "length s' \<le> length ys" by (rule suffix_length_le)
  with s show ?case by simp
qed (auto split: option.splits if_splits)

lemma matchAt_nonempty:
  assumes "matchAt r b s = Some (pre, m, c, rest)" and "consumes r"
  shows "m \<noteq> []"
proof -
  from assms(1) obtain c' b' where bt: "bt [Re r] [] b s = Some (c', b', rest)"
    and m: "m = take (length s - length rest) s"
    by (auto simp: matchAt_def split: option.splits)
  from bt_consumes [OF bt] assms(2) have "length rest < length s" by simp
  with m show ?thesis by auto
qed

lemma exec_nonempty:
  "exec r b s = Some (pre, m, c, rest) \<Longrightarrow> consumes r \<Longrightarrow> m \<noteq> []"
proof (induction s arbitrary: b pre)
  case Nil
  then show ?case using matchAt_nonempty by fastforce
next
  case (Cons x xs)
  show ?case
  proof (cases "matchAt r b (x # xs)")
    case (Some f)
    with Cons.prems have "matchAt r b (x # xs) = Some (pre, m, c, rest)" by simp
    from matchAt_nonempty [OF this Cons.prems(2)] show ?thesis .
  next
    case None
    with Cons.prems obtain pre' where "exec r False xs = Some (pre', m, c, rest)"
      by auto
    from Cons.IH [OF this Cons.prems(2)] show ?thesis .
  qed
qed

text \<open>What the date expression matches.\<close>

lemma bt_dateRe:
  "bt (Re dateRe # k) c b s = (if startsDate s then bt k c False (drop 10 s) else None)"
  by (cases s rule: startsDate.cases)
     (simp_all add: dateRe_def Rep2_def Rep4_def digit_def slash_def)

lemma matchAt_dateRe: "(matchAt dateRe b s \<noteq> None) = startsDate s"
  by (simp add: matchAt_def bt_dateRe split: option.splits)

lemma matchAt_patterns:
  assumes "\<not> startsDate s"
  shows "matchAt pattern1 b s = None" "matchAt pattern2 b s = None" "matchAt pattern3 b s = None"
    "matchAt datePattern b s = None"
  using assms by (simp_all add: matchAt_def pattern1_def pattern2_def pattern3_def datePattern_def bt_dateRe)

lemma exec_dateRe: "(exec dateRe b s \<noteq> None) = hasDate s"
proof (induction s arbitrary: b)
  case Nil
  show ?case using matchAt_dateRe [of b "[]"] by simp
next
  case (Cons x xs)
  have "(exec dateRe b (x # xs) \<noteq> None)
        = (matchAt dateRe b (x # xs) \<noteq> None \<or> exec dateRe False xs \<noteq> None)"
    by (cases "matchAt dateRe b (x # xs)") simp_all
  also have "\<dots> = (startsDate (x # xs) \<or> hasDate xs)"
    by (simp only: matchAt_dateRe Cons.IH)
  finally show ?case by simp
qed

lemma exec_patterns:
  assumes "\<not> hasDate s"
  shows "exec pattern1 b s = None \<and> exec pattern2 b s = None \<and> exec pattern3 b s = None"
  using assms
proof (induction s arbitrary: b)
  case Nil
  then show ?case by (simp add: matchAt_patterns)
next
  case (Cons x xs)
  then show ?case by (simp add: matchAt_patterns)
qed

lemma test_dateStart: "test dateStart s \<Longrightarrow> hasDate s"
proof -
  have later: "exec dateStart False t = None" for t
    by (induction t) (simp_all add: matchAt_def dateStart_def)
  assume "test dateStart s"
  then have "matchAt dateStart True s \<noteq> None"
    by (cases s) (auto simp: test_def later split: option.splits)
  then have "startsDate s" by (simp add: matchAt_def dateStart_def bt_dateRe split: if_splits)
  then show ?thesis by (cases s) simp_all
qed


lemma startsDate_append: "startsDate s \<Longrightarrow> startsDate (s @ t)"
  by (cases s rule: startsDate.cases) simp_all

lemma hasDate_append_left: "hasDate s \<Longrightarrow> hasDate (p @ s)"
  by (induction p) simp_all

lemma hasDate_append_right: "hasDate s \<Longrightarrow> hasDate (s @ t)"
  by (induction s) (auto dest: startsDate_append [where t = t])

lemma hasDate_sublist: "sublist l s \<Longrightarrow> hasDate l \<Longrightarrow> hasDate s"
  by (auto simp: sublist_def intro: hasDate_append_left hasDate_append_right)

lemma sublist_trim: "sublist (trim l) l"
proof -
  have "prefix (rev (dropWhile isSpace (rev s))) s" for s :: jsstring
  proof -
    have "rev s = takeWhile isSpace (rev s) @ dropWhile isSpace (rev s)" by simp
    then have "s = rev (dropWhile isSpace (rev s)) @ rev (takeWhile isSpace (rev s))"
      by (metis rev_append rev_rev_ident)
    then show ?thesis by (metis prefixI)
  qed
  then have "prefix (trim l) (dropWhile isSpace l)" by (simp add: trim_def)
  moreover have "suffix (dropWhile isSpace l) l" by (rule suffix_dropWhile)
  ultimately show ?thesis
    by (meson prefix_imp_sublist suffix_imp_sublist sublist_order.order_trans)
qed

lemma splitNL_nonempty: "splitNL s \<noteq> []"
  by (induction s) (auto split: list.splits)

lemma prefix_hd_splitNL: "splitNL s = h # t \<Longrightarrow> prefix h s"
proof (induction s arbitrary: h t)
  case Nil
  then show ?case by simp
next
  case (Cons c cs)
  obtain h' t' where ht: "splitNL cs = h' # t'"
    using splitNL_nonempty [of cs] by (cases "splitNL cs") auto
  show ?case
  proof (cases "c = 10")
    case True
    with Cons.prems show ?thesis by simp
  next
    case False
    with Cons.prems ht have "h = c # h'" by simp
    with Cons.IH [OF ht] show ?thesis by simp
  qed
qed

lemma sublist_splitNL: "l \<in> set (splitNL s) \<Longrightarrow> sublist l s"
proof (induction s arbitrary: l)
  case Nil
  then show ?case by simp
next
  case (Cons c cs)
  obtain h t where ht: "splitNL cs = h # t"
    using splitNL_nonempty [of cs] by (cases "splitNL cs") auto
  have tail: "sublist l (c # cs)" if "l \<in> set (splitNL cs)" for l
    using Cons.IH [OF that] by (simp add: sublist_Cons_right)
  show ?case
  proof (cases "c = 10")
    case True
    with Cons.prems have "l = [] \<or> l \<in> set (splitNL cs)" by simp
    then show ?thesis using tail by auto
  next
    case False
    with Cons.prems ht have "l = c # h \<or> l \<in> set t" by simp
    then show ?thesis
    proof
      assume l: "l = c # h"
      from prefix_hd_splitNL [OF ht] have "prefix (c # h) (c # cs)" by simp
      with l show ?thesis by (simp add: prefix_imp_sublist)
    next
      assume "l \<in> set t"
      with ht have "l \<in> set (splitNL cs)" by simp
      then show ?thesis by (rule tail)
    qed
  qed
qed

lemma hasDate_test: "hasDate s = test dateRe s"
  unfolding test_def by (rule exec_dateRe [symmetric])

section \<open>Properties of the parser\<close>

subsection \<open>The loops return\<close>

text \<open>
  The loop over the matches of a pattern that cannot match the empty text returns, and
  keeps every property of the transaction list that its body keeps.
\<close>

lemma execLoop_returns:
  assumes "consumes r" and "len = 4 \<or> len = 5" 
    and step: "\<And>m c ts ts'. Q ts \<Longrightarrow> addMatch len m c ts = Inr ts' \<Longrightarrow> Q ts'"
    and "Q ts"
  shows "\<exists>ts'. execLoop r len b s ts = Some (Inr ts') \<and> Q ts'"
  using \<open>Q ts\<close>
proof (induction "length s" arbitrary: s b ts rule: less_induct)
  case less
  show ?case
  proof (cases "exec r b s")
    case None
    then have "execLoop r len b s ts = Some (Inr ts)" by (subst execLoop.simps) simp
    with less.prems show ?thesis by simp
  next
    case (Some f)
    obtain pre m c rest where f: "f = (pre, m, c, rest)" by (cases f)
    from exec_nonempty [OF Some [unfolded f] assms(1)] have "m \<noteq> []" .
    from exec_rest_length(2) [OF Some [unfolded f] this] have lt: "length rest < length s" .
    from assms(2) obtain ts1 where am: "addMatch len m c ts = Inr ts1"
      by (auto simp: addMatch_def)
    from step [OF less.prems am] have "Q ts1" .
    from less.hyps [OF lt this]
    obtain ts' where "execLoop r len (b \<and> pre = [] \<and> m = []) rest ts1 = Some (Inr ts')" and "Q ts'"
      by blast
    moreover have "execLoop r len b s ts = execLoop r len (b \<and> pre = [] \<and> m = []) rest ts1"
      using Some f am by (subst execLoop.simps) simp
    ultimately show ?thesis by simp
  qed
qed


lemma classified_pushMatch: "classified ts \<Longrightarrow> classified (pushMatch m d v n a ts)"
  unfolding classified_def pushMatch_def keptAsDebit_def by auto

lemma classified_addMatch: "classified ts \<Longrightarrow> addMatch len m c ts = Inr ts' \<Longrightarrow> classified ts'"
  unfolding addMatch_def by (auto split: if_splits intro: classified_pushMatch)

lemma consumes_patterns: "consumes pattern1" "consumes pattern2" "consumes pattern3"
  by (simp_all add: pattern1_def pattern2_def pattern3_def dateRe_def Rep2_def digit_def)

lemma forEachPattern_returns:
  assumes "\<forall>(r, len)\<in>set ps. consumes r \<and> (len = 4 \<or> len = 5)" and "classified ts"
  shows "\<exists>ts'. forEachPattern ps input ts = Some (Inr ts') \<and> classified ts'"
  using assms
proof (induction ps arbitrary: ts)
  case Nil
  then show ?case by simp
next
  case (Cons p ps)
  obtain r len where p: "p = (r, len)" by (cases p)
  with Cons.prems have "consumes r" "len = 4 \<or> len = 5" by auto
  from execLoop_returns [of r len classified ts True input, OF this _ Cons.prems(2)] classified_addMatch
  obtain ts1 where 1: "execLoop r len True input ts = Some (Inr ts1)" and "classified ts1"
    by blast
  with Cons.IH [of ts1] Cons.prems(1)
  obtain ts' where "forEachPattern ps input ts1 = Some (Inr ts')" and "classified ts'" by auto
  with 1 p show ?case by simp
qed

lemma classified_parseTransactionLine:
  "classified ts \<Longrightarrow> classified (pushDebit (parseTransactionLine l) ts)"
  unfolding classified_def pushDebit_def parseTransactionLine_def keptAsDebit_def
  by (auto simp: Let_def split: option.splits if_splits)

lemma classified_lineLoop:
  "classified ts \<Longrightarrow> classified (lineLoop lines i inOps ts)"
proof (induction lines i inOps ts rule: lineLoop.induct)
  case (1 lines i inOps ts)
  show ?case
    apply (subst lineLoop.simps)
    using 1 apply (auto simp: Let_def classified_parseTransactionLine split: prod.splits)
    done
qed


lemma classified_merge:
  "classified ts \<Longrightarrow> classified new \<Longrightarrow> classified (mergeTransactions ts new)"
proof (induction new arbitrary: ts)
  case Nil
  then show ?case by simp
next
  case (Cons t new)
  from Cons.prems have "classified (if isDuplicateLine ts t then ts else ts @ [t])" and "classified new"
    by (auto simp: classified_def)
  from Cons.IH [OF this] show ?case by simp
qed

lemma parseTransactions_returns:
  "\<exists>ts. parseTransactions input = Some (Inr ts)
        \<and> (\<forall>t\<in>set ts. truthy (debit t) \<and> keptAsDebit t)"
proof -
  have "classified []" by (simp add: classified_def)
  with forEachPattern_returns [of patterns "[]" input] consumes_patterns
  obtain ts1 where 1: "forEachPattern patterns input [] = Some (Inr ts1)" and c1: "classified ts1"
    by (auto simp: patterns_def)
  have "classified (parseTransactionsLineByLine (splitNL input))"
    unfolding parseTransactionsLineByLine_def
    by (rule classified_lineLoop) (simp add: classified_def)
  with c1 have "classified (mergeTransactions ts1 (parseTransactionsLineByLine (splitNL input)))"
    by (rule classified_merge)
  then have "\<forall>t\<in>set (filter (\<lambda>t. truthy (debit t))
        (mergeTransactions ts1 (parseTransactionsLineByLine (splitNL input)))).
      truthy (debit t) \<and> keptAsDebit t"
    by (auto simp: classified_def truthy_def split: option.splits)
  with 1 show ?thesis by (simp add: parseTransactions_def)
qed

lemma processFrom_returns:
  "\<forall>t\<in>set ts. truthy (debit t) \<Longrightarrow> \<exists>rs. processFrom i ts = Inr rs \<and> length rs = length ts"
proof (induction ts arbitrary: i)
  case Nil
  then show ?case by simp
next
  case (Cons t ts)
  from Cons.prems obtain a where "debit t = Some a" by (auto simp: truthy_def split: option.splits)
  then obtain r where "processTransaction i t = Inr r"
    by (simp add: processTransaction_def Let_def)
  moreover from Cons.IH [of "i + 1"] Cons.prems
  obtain rs where "processFrom (i + 1) ts = Inr rs" and "length rs = length ts" by auto
  ultimately show ?case by simp
qed

lemma pipeline_returns: "\<exists>records. pipeline input = Some (Inr records)"
proof -
  from parseTransactions_returns [of input]
  obtain ts where 1: "parseTransactions input = Some (Inr ts)" and "\<forall>t\<in>set ts. truthy (debit t)"
    by blast
  from processFrom_returns [OF this(2), of 0] obtain rs where "processTransactions ts = Inr rs"
    by (auto simp: processTransactions_def)
  with 1 show ?thesis by (simp add: pipeline_def)
qed


lemma lineLoop_no_date:
  assumes "\<forall>l\<in>set lines. \<not> hasDate (trim l)"
  shows "lineLoop lines i inOps ts = ts"
  using assms
proof (induction lines i inOps ts rule: lineLoop.induct)
  case (1 lines i inOps ts)
  show ?case
  proof (cases "i < length lines")
    case False
    then show ?thesis by (subst lineLoop.simps) simp
  next
    case True
    then have "\<not> hasDate (trim (lines ! i))" using "1.prems" by simp
    then have nd: "\<not> test dateRe (trim (lines ! i))" "\<not> test dateStart (trim (lines ! i))"
      using exec_dateRe [of True "trim (lines ! i)"] test_dateStart [of "trim (lines ! i)"]
      by (auto simp: test_def)
    show ?thesis
      apply (subst lineLoop.simps)
      using True nd "1.IH" "1.prems" apply (auto simp: Let_def)
      done
  qed
qed

lemma parseTransactions_no_date:
  assumes "\<not> test dateRe input"
  shows "parseTransactions input = Some (Inr [])"
proof -
  from assms have nd: "\<not> hasDate input" by (simp add: hasDate_test)
  have loop: "execLoop pattern1 len True input ts = Some (Inr ts)"
       "execLoop pattern2 len True input ts = Some (Inr ts)"
       "execLoop pattern3 len True input ts = Some (Inr ts)" for len ts
    using exec_patterns [OF nd, of True] by (subst execLoop.simps, simp)+
  have 1: "forEachPattern patterns input [] = Some (Inr [])"
    by (simp add: patterns_def loop)
  have "\<forall>l\<in>set (splitNL input). \<not> hasDate (trim l)"
    using nd hasDate_sublist sublist_trim sublist_splitNL by blast
  from lineLoop_no_date [OF this]
  have 2: "parseTransactionsLineByLine (splitNL input) = []"
    by (simp add: parseTransactionsLineByLine_def)
  show ?thesis by (simp add: parseTransactions_def 1 2)
qed


subsection \<open>Evaluation\<close>

lemmas eval_model =
  eval_strings eval_regex
  Plus_def LPlus_def Opt_def Rep2_def Rep3_def Rep4_def Rep1to3_def digit_def space_def
  comma_def slash_def
  match_js_def group_def replaceFirst_def split_js_def matchAll.simps replaceAll.simps trim_def
  debitKeywords_def creditKeywords_def isDebitTransaction_def
  costCategories_def fuzzyRules_def categorizeTransaction_def
  determineMovementType_def monthlyKeywords_def occasionalKeywords_def determineFrequency_def
  notDigitNL_def pourRe_def deRe_def prefixMethod_def prefixSepa_def prefixEmisNet_def
  prefixArticle_def prefixPour_def startsWithDigit_def stopWord_def notNameChar_def
  cleanMatch_def meaningfulWord_def stripPrefixes_def genericName_def extractClientName_def
  dateRe_def amountStrict_def amountLoose_def pattern1_def pattern2_def pattern3_def
  patterns_def amountLine_def dateStart_def datePattern_def amountPattern_def
  truthy_def isDuplicate_def pushMatch_def addMatch_def execLoop.simps
  parseTransactionLine_def operationsHeader_def pushDebit_def combineLines.simps
  lineLoop.simps parseTransactionsLineByLine_def isDuplicateLine_def
  processTransaction_def Let_def

subsection \<open>A row with a date and no amount\<close>

lemma datedRow_patterns: "forEachPattern patterns datedRow [] = Some (Inr [])"
  by (simp add: datedRow_def eval_model)

lemma datedRow_lines: "parseTransactionsLineByLine (splitNL datedRow) = [datedRow_tx]"
  by (simp add: datedRow_def datedRow_tx_def eval_model)

lemma datedRow_parse: "parseTransactions datedRow = Some (Inr [datedRow_tx])"
  unfolding parseTransactions_def Let_def datedRow_patterns datedRow_lines
  by (simp add: truthy_def isDuplicateLine_def datedRow_tx_def js_def)

lemma datedRow_process: "processTransaction 0 datedRow_tx = Inr datedRow_record"
  by (simp add: datedRow_tx_def datedRow_record_def eval_model)

lemma datedRow_pipeline: "pipeline datedRow = Some (Inr [datedRow_record])"
  by (simp add: pipeline_def datedRow_parse processTransactions_def datedRow_process)

lemma datedRow_no_amount: "\<not> test amountLine datedRow"
  by (simp add: datedRow_def eval_model)

lemma datedRow_no_comma: "\<not> includes_js datedRow (js '','')"
  by (simp add: datedRow_def js_def)

text \<open>
  Claim C9. For every input text the pipeline returns a list of records: no loop runs
  for ever and nothing is thrown. But a text that is not a statement does not always give
  the empty list. In \<open>datedRow\<close> the only row has a date and a word and no amount (no
  comma, so no digits with a comma and two decimals, anywhere in the text), and the pipeline returns a
  record for it, with the amount text \<open>2025\<close> and the euro sign: the amount expression
  of \<open>parseTransactionLine\<close> ends in the alternative \<open>\d+\<close>, which matches the digits
  of the date, so the list of amounts of a dated line is never empty, the test
  \<open>if (!amounts) return null\<close> never fires, and the last run of digits, here the year,
  is taken for the amount. (A text without any date does give the empty list:
  \<open>parseTransactions_no_date\<close>.)
\<close>

theorem pipeline_total:
  "(\<forall>input. \<exists>records. pipeline input = Some (Inr records))
   \<and> \<not> includes_js datedRow (js '','')
   \<and> \<not> test amountLine datedRow
   \<and> pipeline datedRow = Some (Inr [datedRow_record])
   \<and> amountWithTaxes datedRow_record = js ''2025'' @ [8364]
   \<and> [datedRow_record] \<noteq> []"
  using pipeline_returns datedRow_no_comma datedRow_no_amount datedRow_pipeline
  by (simp add: datedRow_record_def)

subsection \<open>Scenario 1\<close>

lemma scenario1_patterns:
  "forEachPattern patterns scenario1 [] = Some (Inr [scenario1_tx1, scenario1_tx2])"
  by (simp add: scenario1_def scenario1_tx1_def scenario1_tx2_def eval_model)

lemma scenario1_lines: "parseTransactionsLineByLine (splitNL scenario1) = []"
  by (simp add: scenario1_def eval_model)

lemma scenario1_parse: "parseTransactions scenario1 = Some (Inr [scenario1_tx1, scenario1_tx2])"
  unfolding parseTransactions_def Let_def scenario1_patterns scenario1_lines
  by (simp add: truthy_def scenario1_tx1_def scenario1_tx2_def js_def)

lemma scenario1_process1: "processTransaction 0 scenario1_tx1 = Inr scenario1_record1"
  by (simp add: scenario1_tx1_def scenario1_record1_def eval_model)

lemma scenario1_process2: "processTransaction (Suc 0) scenario1_tx2 = Inr scenario1_record2"
  by (simp add: scenario1_tx2_def scenario1_record2_def eval_model)

lemma scenario1_pipeline:
  "pipeline scenario1 = Some (Inr [scenario1_record1, scenario1_record2])"
  by (simp add: pipeline_def scenario1_parse processTransactions_def
        scenario1_process1 scenario1_process2)

lemma scenario1_second_match:
  "\<not> isDuplicate [scenario1_tx1] (js ''02/01/2025'') (js ''2 000,00'')
       (js ''02/01/2025 VIR INSTANTANE EMIS NET POUR: M. JORGE GOENAGA PEREZ'')"
  by (simp add: scenario1_tx1_def isDuplicate_def js_def)

text \<open>With a description of less than 20 characters the same test finds the duplicate.\<close>

lemma short_second_match:
  "isDuplicate
     [\<lparr>transaction.date = js ''02/01/2025'', valeur = js ''02/01/2025'',
       nature = js ''VIR EMIS LOYER'', debit = Some (js ''2 000,00''), credit = None\<rparr>]
     (js ''02/01/2025'') (js ''2 000,00'') (js ''02/01/2025 VIR EMIS LOYER'')"
  by (simp add: isDuplicate_def js_def)

text \<open>
  Claim C7. For the line of scenario 1 the code returns two records, not one. The third
  pattern, with a single date, matches the row again and takes the second date into the
  description; the duplicate test looks for the first 30 characters of the earlier
  description in the first 30 characters of the new one, where the date has pushed them
  out, and misses it (it finds the duplicate when the description is short). Both records have the movement type \<open>other\<close> and not \<open>transfer\<close>:
  \<open>determineMovementType\<close> looks for \<open>VIREMENT\<close>, and the description has the
  abbreviation \<open>VIR\<close>. The date, the counterparty, the category and the confidence
  \<open>medium\<close> are as the claim has them; the amount text is \<open>2000,00\<close> with the euro sign.
\<close>

theorem scenario1_not_as_stated:
  "pipeline scenario1 = Some (Inr [scenario1_record1, scenario1_record2])
   \<and> length [scenario1_record1, scenario1_record2] = 2
   \<and> \<not> isDuplicate [scenario1_tx1] (js ''02/01/2025'') (js ''2 000,00'')
         (js ''02/01/2025 VIR INSTANTANE EMIS NET POUR: M. JORGE GOENAGA PEREZ'')
   \<and> typeOfMovement scenario1_record1 = js ''other''
   \<and> typeOfMovement scenario1_record2 = js ''other''
   \<and> js ''other'' \<noteq> js ''transfer''
   \<and> determineMovementType (js ''VIR INSTANTANE EMIS NET POUR: M. JORGE GOENAGA PEREZ'')
       = js ''other''
   \<and> determineMovementType (js ''VIREMENT INSTANTANE EMIS NET POUR: M. JORGE GOENAGA PEREZ'')
       = js ''transfer''
   \<and> expense.date scenario1_record1 = js ''02/01/2025''
   \<and> client scenario1_record1 = js ''M. JORGE GOENAGA PEREZ''
   \<and> service scenario1_record1 = js ''MASSE SALARIALE''
   \<and> confidence scenario1_record1 = js ''medium''
   \<and> amountWithTaxes scenario1_record1 = js ''2000,00'' @ [8364]"
proof -
  have 1: "determineMovementType (js ''VIR INSTANTANE EMIS NET POUR: M. JORGE GOENAGA PEREZ'')
       = js ''other''"
    by (simp add: determineMovementType_def eval_strings)
  have 2: "determineMovementType
       (js ''VIREMENT INSTANTANE EMIS NET POUR: M. JORGE GOENAGA PEREZ'') = js ''transfer''"
    by (simp add: determineMovementType_def eval_strings)
  have 3: "js ''other'' \<noteq> js ''transfer''"
    by (simp add: js_def)
  show ?thesis
    unfolding 1 2 using 3 scenario1_second_match
    by (simp add: scenario1_pipeline scenario1_record1_def scenario1_record2_def)
qed

section \<open>Properties of the expense records\<close>

text \<open>Global replacement, one match at a time.\<close>

lemma exec_hit: "matchAt r b s = Some f \<Longrightarrow> exec r b s = Some f"
  by (cases s) simp_all

lemma exec_skip:
  "matchAt r b (x # xs) = None \<Longrightarrow>
   exec r b (x # xs) = map_option (\<lambda>(pre, m, c, rest). (x # pre, m, c, rest)) (exec r False xs)"
  by simp

lemma replaceAll_hit:
  assumes "matchAt r b s = Some (pre, m, c, rest)" and "m \<noteq> []"
  shows "replaceAll r rep b s = rep @ replaceAll r rep False rest"
proof -
  from matchAt_parts [OF assms(1)] have "pre = []" by simp
  with exec_hit [OF assms(1)] assms(2) show ?thesis
    by (subst replaceAll.simps) simp
qed

lemma replaceAll_skip:
  assumes "matchAt r b (x # xs) = None"
  shows "replaceAll r rep b (x # xs) = x # replaceAll r rep False xs"
proof (cases "exec r False xs")
  case None
  with assms show ?thesis by (simp add: replaceAll.simps)
next
  case (Some f)
  obtain pre m c rest where "f = (pre, m, c, rest)" by (cases f)
  with Some assms show ?thesis
    by (subst replaceAll.simps, subst (2) replaceAll.simps) (simp split: list.splits)
qed

lemma replaceAll_Nil: "matchAt r b [] = None \<Longrightarrow> replaceAll r rep b [] = []"
  by (subst replaceAll.simps) simp

lemma matchAt_Chr:
  "matchAt (Chr cl) b s =
     (case s of [] \<Rightarrow> None | x # xs \<Rightarrow> if accepts cl x then Some ([], [x], [], xs) else None)"
  by (simp add: matchAt_def split: list.splits)

lemma replaceAll_Chr:
  "replaceAll (Chr cl) rep b s = concat (map (\<lambda>x. if accepts cl x then rep else [x]) s)"
proof (induction s arbitrary: b)
  case Nil
  show ?case by (simp add: replaceAll_Nil matchAt_Chr)
next
  case (Cons x xs)
  show ?case
  proof (cases "accepts cl x")
    case True
    then have "matchAt (Chr cl) b (x # xs) = Some ([], [x], [], xs)" by (simp add: matchAt_Chr)
    from replaceAll_hit [OF this] True Cons.IH show ?thesis by simp
  next
    case False
    then have "matchAt (Chr cl) b (x # xs) = None" by (simp add: matchAt_Chr)
    from replaceAll_skip [OF this] False Cons.IH show ?thesis by simp
  qed
qed

lemma remove_spaces: "replaceAll space [] b s = filter (\<lambda>c. \<not> isSpace c) s"
  unfolding space_def replaceAll_Chr by (induction s) simp_all

text \<open>
  Claim C2, as the code has it. For transactions that all have a debit amount,
  \<open>processTransactions\<close> returns one record for each, in order; the amount text of the
  record is the debit text without its white space, followed by the euro sign (the
  digits and the decimal comma stay as they were matched); the description is kept as
  it is. The record has no field for a number.
\<close>

theorem amountWithTaxes_format:
  assumes "\<forall>t\<in>set ts. debit t \<noteq> None"
  shows "\<exists>rs. processTransactions ts = Inr rs
           \<and> map amountWithTaxes rs
              = map (\<lambda>t. filter (\<lambda>c. \<not> isSpace c) (the (debit t)) @ [8364]) ts
           \<and> map rawNature rs = map nature ts"
proof -
  have "\<exists>rs. processFrom i ts = Inr rs
           \<and> map amountWithTaxes rs
              = map (\<lambda>t. filter (\<lambda>c. \<not> isSpace c) (the (debit t)) @ [8364]) ts
           \<and> map rawNature rs = map nature ts" for i
    using assms
  proof (induction ts arbitrary: i)
    case Nil
    then show ?case by simp
  next
    case (Cons t ts)
    from Cons.prems obtain a where a: "debit t = Some a" by auto
    then obtain r where r: "processTransaction i t = Inr r"
      and "amountWithTaxes r = filter (\<lambda>c. \<not> isSpace c) a @ [8364]" and "rawNature r = nature t"
      by (simp add: processTransaction_def Let_def remove_spaces)
    moreover from Cons.IH [of "i + 1"] Cons.prems
    obtain rs where "processFrom (i + 1) ts = Inr rs"
      and "map amountWithTaxes rs = map (\<lambda>t. filter (\<lambda>c. \<not> isSpace c) (the (debit t)) @ [8364]) ts"
      and "map rawNature rs = map nature ts"
      by auto
    ultimately show ?case using a by simp
  qed
  then show ?thesis by (simp add: processTransactions_def)
qed

text \<open>The first transaction of scenario 1.\<close>

theorem amountWithTaxes_format_witness:
  "debit scenario1_tx1 = Some (js ''2 000,00'')
   \<and> (\<exists>rs. processTransactions [scenario1_tx1] = Inr rs
          \<and> map amountWithTaxes rs = [js ''2000,00'' @ [8364]])"
proof -
  have d: "debit scenario1_tx1 = Some (js ''2 000,00'')" by (simp add: scenario1_tx1_def)
  then have "\<forall>t\<in>set [scenario1_tx1]. debit t \<noteq> None" by simp
  from amountWithTaxes_format [OF this] d show ?thesis
    by (auto simp: js_def isSpace_def)
qed

text \<open>
  Claim C2 as stated fails: the amount text \<open>2 000,00\<close> of the first transaction of
  scenario 1 is not kept as it was matched; the record has \<open>2000,00\<close> and the euro sign.
\<close>

theorem amount_not_retained:
  "debit scenario1_tx1 = Some (js ''2 000,00'')
   \<and> processTransactions [scenario1_tx1] = Inr [scenario1_record1]
   \<and> amountWithTaxes scenario1_record1 = js ''2000,00'' @ [8364]
   \<and> js ''2000,00'' @ [8364] \<noteq> js ''2 000,00''"
proof -
  have "processTransactions [scenario1_tx1] = Inr [scenario1_record1]"
    by (simp add: processTransactions_def scenario1_process1)
  moreover have "debit scenario1_tx1 = Some (js ''2 000,00'')"
    by (simp add: scenario1_tx1_def)
  moreover have "amountWithTaxes scenario1_record1 = js ''2000,00'' @ [8364]"
    by (simp add: scenario1_record1_def)
  moreover have "js ''2000,00'' @ [8364] \<noteq> js ''2 000,00''"
    by (simp add: js_def)
  ultimately show ?thesis by blast
qed

section \<open>Only debits are returned\<close>

text \<open>
  Every transaction that \<open>parseTransactions\<close> returns has its debit amount, a text that
  is not empty, and no credit amount.
\<close>

lemma parseTransactions_debit_populated:
  assumes "parseTransactions input = Some (Inr ts)" and "t \<in> set ts"
  shows "(\<exists>a. debit t = Some a \<and> a \<noteq> []) \<and> credit t = None"
proof -
  from parseTransactions_returns [of input] assms
  have tr: "truthy (debit t)" and k: "keptAsDebit t" by auto
  from tr have "\<exists>a. debit t = Some a \<and> a \<noteq> []"
    by (auto simp: truthy_def split: option.splits)
  moreover from k have "credit t = None"
    by (auto simp: keptAsDebit_def)
  ultimately show ?thesis by blast
qed











section \<open>The deduplicator\<close>

lemma includes_js_refl: "includes_js s s"
  by (simp add: includes_js_sublist)

lemma isDuplicate_includes:
  "isDuplicate ts d a n =
     list_ex (\<lambda>t. transaction.date t = d \<and> debit t = Some a
                  \<and> includes_js (take 30 n) (take 30 (nature t))) ts"
  unfolding isDuplicate_def list_ex_iff using includes_js_refl by metis

lemma prefix_mergeTransactions: "prefix ts (mergeTransactions ts new)"
proof (induction new arbitrary: ts)
  case Nil
  show ?case by simp
next
  case (Cons x new)
  have "prefix ts (if isDuplicateLine ts x then ts else ts @ [x])" by simp
  also have "prefix \<dots> (mergeTransactions (if isDuplicateLine ts x then ts else ts @ [x]) new)"
    by (rule Cons.IH)
  finally show ?case by simp
qed

lemma isDuplicateLine_prefix:
  "isDuplicateLine ts x \<Longrightarrow> prefix ts ts' \<Longrightarrow> isDuplicateLine ts' x"
  by (auto simp: isDuplicateLine_def list_ex_iff prefix_def)

lemma isDuplicateLine_self: "isDuplicateLine (ts @ [x]) x"
  by (simp add: isDuplicateLine_def)

lemma merged_have_duplicates: "list_all (isDuplicateLine (mergeTransactions ts new)) new"
proof (induction new arbitrary: ts)
  case Nil
  show ?case by simp
next
  case (Cons x new)
  let ?ts = "if isDuplicateLine ts x then ts else ts @ [x]"
  have "isDuplicateLine ?ts x" by (simp add: isDuplicateLine_self)
  then have "isDuplicateLine (mergeTransactions ?ts new) x"
    using prefix_mergeTransactions by (rule isDuplicateLine_prefix)
  with Cons.IH [of ?ts] show ?case by simp
qed

text \<open>
  Claim C5, as the code has it. A match of the pattern loop is a duplicate exactly when
  a transaction found before has the same date, holds the same amount text as its debit
  (so it was classified as a debit), and the first 30 characters of its description
  occur in the first 30 characters of the new description (equal beginnings are the
  case where they occur at the start). A transaction of the line scan is a duplicate
  exactly when one found before has the same date, the same debit and the same first 20
  characters of description. A duplicate is dropped and the transactions found before
  stay as they are, in order; every transaction of the line scan is in the merged list or
  has a duplicate there.
\<close>

theorem deduplicator_rules:
  "isDuplicate ts d a n
     = list_ex (\<lambda>t. transaction.date t = d \<and> debit t = Some a
                    \<and> includes_js (take 30 n) (take 30 (nature t))) ts
   \<and> pushMatch m d v n a ts
     = (if isDuplicate ts d a n then ts
        else ts @ [\<lparr>transaction.date = d, valeur = v, nature = trim n,
                    debit = (if isDebitTransaction m n then Some a else None),
                    credit = (if isDebitTransaction m n then None else Some a)\<rparr>])
   \<and> isDuplicateLine ts x
     = list_ex (\<lambda>t. transaction.date t = transaction.date x \<and> debit t = debit x
                    \<and> take 20 (nature t) = take 20 (nature x)) ts
   \<and> mergeTransactions ts (x # new)
     = mergeTransactions (if isDuplicateLine ts x then ts else ts @ [x]) new
   \<and> prefix ts (mergeTransactions ts new)
   \<and> list_all (isDuplicateLine (mergeTransactions ts new)) new"
  using isDuplicate_includes [of ts d a n] prefix_mergeTransactions [of ts new]
    merged_have_duplicates [of ts new]
  by (simp add: pushMatch_def isDuplicateLine_def)

text \<open>
  Claim C5 as stated fails: the test is not symmetric in the two descriptions. With the
  same date and amount, \<open>X LOYER\<close> after \<open>LOYER\<close> is a duplicate, and \<open>LOYER\<close> after
  \<open>X LOYER\<close> is not: the earlier description must occur in the later one.
\<close>

theorem deduplicator_not_symmetric:
  "isDuplicate [\<lparr>transaction.date = js ''01/02/2025'', valeur = js ''01/02/2025'',
                  nature = js ''LOYER'', debit = Some (js ''10,00''), credit = None\<rparr>]
     (js ''01/02/2025'') (js ''10,00'') (js ''X LOYER'')
   \<and> \<not> isDuplicate [\<lparr>transaction.date = js ''01/02/2025'', valeur = js ''01/02/2025'',
                  nature = js ''X LOYER'', debit = Some (js ''10,00''), credit = None\<rparr>]
     (js ''01/02/2025'') (js ''10,00'') (js ''LOYER'')"
  by (simp add: isDuplicate_def js_def)

section \<open>Properties of the counterparty extractor\<close>

subsection \<open>Greedy repetition of a character class\<close>

lemma star_greedy:
  assumes k: "\<And>c t. bt k c False t \<noteq> None"
  shows "bt (Re (Star (Chr cl)) # k) c False t = bt k c False (dropWhile (accepts cl) t)"
proof (induction t)
  case Nil
  show ?case by simp
next
  case (Cons y ys)
  show ?case
  proof (cases "accepts cl y")
    case True
    with Cons k [of c "dropWhile (accepts cl) ys"] show ?thesis by (auto split: option.splits)
  next
    case False
    then show ?thesis by simp
  qed
qed

lemma star_greedy_stop:
  assumes "list_all (accepts cl) ws" and "t = [] \<or> \<not> accepts cl (hd t)"
    and "bt k c False t = Some r"
  shows "bt (Re (Star (Chr cl)) # k) c False (ws @ t) = Some r"
  using assms(1)
proof (induction ws)
  case Nil
  from assms(2,3) show ?case by (cases t) auto
next
  case (Cons w ws)
  then show ?case by simp
qed

lemma take_length_dropWhile: "take (length ys - length (dropWhile P ys)) ys = takeWhile P ys"
proof -
  have "length ys = length (takeWhile P ys) + length (dropWhile P ys)"
    by (metis length_append takeWhile_dropWhile_id)
  then have "length ys - length (dropWhile P ys) = length (takeWhile P ys)" by simp
  then show ?thesis by (simp add: takeWhile_eq_take [symmetric])
qed

lemma matchAt_Plus_space:
  "matchAt (Plus space) b s =
     (case s of
        [] \<Rightarrow> None
      | y # ys \<Rightarrow> if isSpace y then Some ([], y # takeWhile isSpace ys, [], dropWhile isSpace ys)
                 else None)"
proof (cases s)
  case Nil
  then show ?thesis by (simp add: matchAt_def Plus_def space_def)
next
  case (Cons y ys)
  have acc: "accepts (CSet [Spc]) = isSpace" by (rule ext) simp
  have star: "bt [Re (Star (Chr (CSet [Spc])))] [] False ys = Some ([], False, dropWhile isSpace ys)"
    using star_greedy [of "[]" "CSet [Spc]" "[]" ys] by (simp add: acc)
  have len: "Suc (length ys) - length (dropWhile isSpace ys)
             = Suc (length ys - length (dropWhile isSpace ys))"
    by (simp add: Suc_diff_le length_dropWhile_le)
  show ?thesis
    using Cons star by (simp add: matchAt_def Plus_def space_def len take_length_dropWhile)
qed


lemma canonicalize_colon: "(canonicalize y = canonicalize 58) = (y = 58)"
proof (cases "y < 128")
  case True
  then show ?thesis by (auto simp: canonicalize_low split: if_splits)
next
  case False
  with canonicalize_high [of y] show ?thesis by (simp add: canonicalize_low)
qed

lemma matchAt_pourRe_colon:
  "matchAt pourRe b s \<noteq> None \<Longrightarrow> \<exists>a1 a2 a3 a4 r. s = a1 # a2 # a3 # a4 # 58 # r"
  by (auto simp: matchAt_def pourRe_def js_def canonicalize_colon
           split: option.splits list.splits if_splits)

lemma matchAt_deRe_colon:
  "matchAt deRe b s \<noteq> None \<Longrightarrow> \<exists>a1 a2 r. s = a1 # a2 # 58 # r"
  by (auto simp: matchAt_def deRe_def js_def canonicalize_colon
           split: option.splits list.splits if_splits)

lemma exec_append_skip:
  assumes "\<And>p q b'. pre = q @ p \<Longrightarrow> p \<noteq> [] \<Longrightarrow> matchAt r b' (p @ s) = None"
  shows "map_option (\<lambda>(q, m, c, rest). c) (exec r b (pre @ s))
         = map_option (\<lambda>(q, m, c, rest). c) (exec r (b \<and> pre = []) s)"
  using assms
proof (induction pre arbitrary: b)
  case Nil
  show ?case by simp
next
  case (Cons x pre)
  from Cons.prems [of "[]" "x # pre" b] have none: "matchAt r b (x # pre @ s) = None" by simp
  have "map_option (\<lambda>(q, m, c, rest). c) (exec r False (pre @ s))
         = map_option (\<lambda>(q, m, c, rest). c) (exec r (False \<and> pre = []) s)"
  proof (rule Cons.IH)
    fix p q b'
    assume "pre = q @ p" "p \<noteq> []"
    then show "matchAt r b' (p @ s) = None" using Cons.prems [of "x # q" p b'] by simp
  qed
  moreover have "exec r False s = exec r False s" ..
  ultimately show ?case using none
    by (cases "exec r False (pre @ s)") (auto simp: map_option_case split: option.splits)
qed


lemma marker_caps:
  assumes lit: "\<And>k c b t. bt (Re L # k) c b (mk @ t) = bt k c False t"
    and ws: "list_all isSpace ws" and x: "\<not> isSpace x" "\<not> isDigit x"
  shows "bt [Re (Seq L (Seq (Star space) (Grp 1 (Plus notDigitNL))))] [] b (mk @ ws @ x # rest)
         = Some ([(1, x # takeWhile (\<lambda>c. \<not> isDigit c \<and> c \<noteq> 10) rest)], False,
                 dropWhile (\<lambda>c. \<not> isDigit c \<and> c \<noteq> 10) rest)"
proof -
  let ?ok = "\<lambda>c. \<not> isDigit c \<and> c \<noteq> 10"
  have ok: "accepts (NSet [Rng 48 57, Ch 10]) = ?ok" by (rule ext) (simp add: isDigit_def)
  have sp: "accepts (CSet [Spc]) = isSpace" by (rule ext) simp
  from x(1) have x10: "x \<noteq> 10" by (auto simp: isSpace_def)
  have len: "Suc (length rest) - length (dropWhile ?ok rest)
             = Suc (length rest - length (dropWhile ?ok rest))"
    by (simp add: Suc_diff_le length_dropWhile_le)
  have tk: "take (length (x # rest) - length (dropWhile ?ok rest)) (x # rest)
            = x # takeWhile ?ok rest"
    by (simp only: length_Cons len take_Suc_Cons take_length_dropWhile)
  have "bt [Re (Star (Chr (NSet [Rng 48 57, Ch 10]))), GrpEnd 1 (x # rest)] [] False rest
        = bt [GrpEnd 1 (x # rest)] [] False (dropWhile ?ok rest)"
    using star_greedy [of "[GrpEnd 1 (x # rest)]" "NSet [Rng 48 57, Ch 10]" "[]" rest]
    by (simp add: ok)
  also have "\<dots> = Some ([(1, x # takeWhile ?ok rest)], False, dropWhile ?ok rest)"
    by (simp only: bt.simps tk)
  finally have star: "bt [Re (Star (Chr (NSet [Rng 48 57, Ch 10]))), GrpEnd 1 (x # rest)] [] False rest
        = Some ([(1, x # takeWhile ?ok rest)], False, dropWhile ?ok rest)" .
  have accx: "accepts (NSet [Rng 48 57, Ch 10]) x" using x x10 by (simp add: isDigit_def)
  have grp: "bt [Re (Grp 1 (Plus notDigitNL))] [] False (x # rest)
        = Some ([(1, x # takeWhile ?ok rest)], False, dropWhile ?ok rest)"
    using accx star by (simp add: Plus_def notDigitNL_def del: accepts.simps bt.simps(8))
  have "bt [Re (Star (Chr (CSet [Spc]))), Re (Grp 1 (Plus notDigitNL))] [] False (ws @ x # rest)
        = Some ([(1, x # takeWhile ?ok rest)], False, dropWhile ?ok rest)"
    using ws x(1) grp by (intro star_greedy_stop) (simp_all add: sp)
  then show ?thesis by (simp add: lit space_def)
qed

lemma lit_pour: "bt (Re (stri (js ''POUR:'')) # k) c b (js ''POUR:'' @ t) = bt k c False t"
  by (simp add: js_def)

lemma lit_de: "bt (Re (stri (js ''DE:'')) # k) c b (js ''DE:'' @ t) = bt k c False t"
  by (simp add: js_def)

lemma no_colon_pour:
  assumes "58 \<notin> set p" and "p \<noteq> []"
  shows "p @ js ''POUR:'' @ t \<noteq> a1 # a2 # a3 # a4 # 58 # r"
proof
  assume eq: "p @ js ''POUR:'' @ t = a1 # a2 # a3 # a4 # 58 # r"
  then have at: "(p @ js ''POUR:'' @ t) ! 4 = 58" by simp
  show False
  proof (cases "4 < length p")
    case True
    with at have "p ! 4 = 58" by (simp add: nth_append)
    with True assms(1) show False by (metis nth_mem)
  next
    case False
    with assms(2) have "4 - length p < 4" by (cases p) auto
    then have "4 - length p = 0 \<or> 4 - length p = 1 \<or> 4 - length p = 2 \<or> 4 - length p = 3"
      by arith
    with at False show False by (auto simp: nth_append js_def)
  qed
qed

lemma no_colon_de:
  assumes "58 \<notin> set p" and "p \<noteq> []"
  shows "p @ js ''DE:'' @ t \<noteq> a1 # a2 # 58 # r"
proof
  assume eq: "p @ js ''DE:'' @ t = a1 # a2 # 58 # r"
  then have at: "(p @ js ''DE:'' @ t) ! 2 = 58" by simp
  show False
  proof (cases "2 < length p")
    case True
    with at have "p ! 2 = 58" by (simp add: nth_append)
    with True assms(1) show False by (metis nth_mem)
  next
    case False
    with assms(2) have "2 - length p < 2" by (cases p) auto
    then have "2 - length p = 0 \<or> 2 - length p = 1" by arith
    with at False show False by (auto simp: nth_append js_def)
  qed
qed

lemma match_js_pourRe:
  assumes "58 \<notin> set pre" "list_all isSpace ws" "\<not> isSpace x" "\<not> isDigit x"
  shows "match_js pourRe (pre @ js ''POUR:'' @ ws @ x # rest)
         = Some [(1, x # takeWhile (\<lambda>c. \<not> isDigit c \<and> c \<noteq> 10) rest)]"
proof -
  let ?s = "js ''POUR:'' @ ws @ x # rest"
  have skip: "matchAt pourRe b' (p @ ?s) = None" if "pre = q @ p" "p \<noteq> []" for p q b'
  proof (rule ccontr)
    assume "matchAt pourRe b' (p @ ?s) \<noteq> None"
    from matchAt_pourRe_colon [OF this] obtain a1 a2 a3 a4 r
      where "p @ ?s = a1 # a2 # a3 # a4 # 58 # r" by blast
    moreover from that assms(1) have "58 \<notin> set p" by simp
    ultimately show False using no_colon_pour that(2) by blast
  qed
  have "bt [Re pourRe] [] (True \<and> pre = []) ?s
         = Some ([(1, x # takeWhile (\<lambda>c. \<not> isDigit c \<and> c \<noteq> 10) rest)], False,
                 dropWhile (\<lambda>c. \<not> isDigit c \<and> c \<noteq> 10) rest)"
    unfolding pourRe_def using lit_pour assms(2-4) by (rule marker_caps)
  then have "map_option (\<lambda>(q, m, c, rest). c) (exec pourRe (True \<and> pre = []) ?s)
         = Some [(1, x # takeWhile (\<lambda>c. \<not> isDigit c \<and> c \<noteq> 10) rest)]"
    by (simp add: exec_hit matchAt_def)
  with exec_append_skip [of pre pourRe ?s True, OF skip] show ?thesis
    by (simp add: match_js_def)
qed

lemma match_js_deRe:
  assumes "58 \<notin> set pre" "list_all isSpace ws" "\<not> isSpace x" "\<not> isDigit x"
  shows "match_js deRe (pre @ js ''DE:'' @ ws @ x # rest)
         = Some [(1, x # takeWhile (\<lambda>c. \<not> isDigit c \<and> c \<noteq> 10) rest)]"
proof -
  let ?s = "js ''DE:'' @ ws @ x # rest"
  have skip: "matchAt deRe b' (p @ ?s) = None" if "pre = q @ p" "p \<noteq> []" for p q b'
  proof (rule ccontr)
    assume "matchAt deRe b' (p @ ?s) \<noteq> None"
    from matchAt_deRe_colon [OF this] obtain a1 a2 r
      where "p @ ?s = a1 # a2 # 58 # r" by blast
    moreover from that assms(1) have "58 \<notin> set p" by simp
    ultimately show False using no_colon_de that(2) by blast
  qed
  have "bt [Re deRe] [] (True \<and> pre = []) ?s
         = Some ([(1, x # takeWhile (\<lambda>c. \<not> isDigit c \<and> c \<noteq> 10) rest)], False,
                 dropWhile (\<lambda>c. \<not> isDigit c \<and> c \<noteq> 10) rest)"
    unfolding deRe_def using lit_de assms(2-4) by (rule marker_caps)
  then have "map_option (\<lambda>(q, m, c, rest). c) (exec deRe (True \<and> pre = []) ?s)
         = Some [(1, x # takeWhile (\<lambda>c. \<not> isDigit c \<and> c \<noteq> 10) rest)]"
    by (simp add: exec_hit matchAt_def)
  with exec_append_skip [of pre deRe ?s True, OF skip] show ?thesis
    by (simp add: match_js_def)
qed


lemma dropWhile_snoc: "\<not> P x \<Longrightarrow> dropWhile P (ys @ [x]) = dropWhile P ys @ [x]"
  by (induction ys) simp_all

lemma trim_Cons: "\<not> isSpace x \<Longrightarrow> trim (x # t) = x # rev (dropWhile isSpace (rev t))"
  by (simp add: trim_def dropWhile_snoc)

lemma replaceAll_head:
  "\<not> isSpace x \<Longrightarrow>
   replaceAll (Plus space) rep b (x # t) = x # replaceAll (Plus space) rep False t"
  by (rule replaceAll_skip) (simp add: matchAt_Plus_space)

lemma cleanMatch_head:
  assumes "\<not> isSpace x"
  shows "cleanMatch [(1, x # g)] = replaceAll (Plus space) (js '' '') True (trim (x # g))"
    and "cleanMatch [(1, x # g)] \<noteq> []" and "hd (cleanMatch [(1, x # g)]) = x"
  using assms by (simp_all add: cleanMatch_def group_def trim_Cons replaceAll_head)

text \<open>
  Claim C8, as the code has it. Let a description fall under one of the two marker
  rules: it contains \<open>VIR INSTANTANE EMIS NET\<close> and the marker is \<open>POUR:\<close>, or it
  contains \<open>PRELEVEMENT EUROPEEN\<close>, not \<open>VIR INSTANTANE EMIS NET\<close>, and the marker is
  \<open>DE:\<close>. If no colon stands before the marker and the marker is followed, after white
  space or none, by a character that is neither white space nor a digit, then the name
  is not empty: it starts with that character and is the text from there to the first
  digit or line feed, trimmed, with every run of white space replaced by one space.
\<close>

theorem extractClientName_after_marker:
  assumes "(includes_js d (js ''VIR INSTANTANE EMIS NET'') \<and> mk = js ''POUR:'')
           \<or> (\<not> includes_js d (js ''VIR INSTANTANE EMIS NET'')
               \<and> includes_js d (js ''PRELEVEMENT EUROPEEN'') \<and> mk = js ''DE:'')"
    and "d = pre @ mk @ ws @ x # rest"
    and "58 \<notin> set pre" and "list_all isSpace ws" and "\<not> isSpace x" and "\<not> isDigit x"
  shows "extractClientName d
           = replaceAll (Plus space) (js '' '') True
               (trim (x # takeWhile (\<lambda>c. \<not> isDigit c \<and> c \<noteq> 10) rest))
         \<and> extractClientName d \<noteq> [] \<and> hd (extractClientName d) = x"
proof -
  let ?g = "takeWhile (\<lambda>c. \<not> isDigit c \<and> c \<noteq> 10) rest"
  have "extractClientName d = cleanMatch [(1, x # ?g)]"
    using assms(1)
  proof
    assume a: "includes_js d (js ''VIR INSTANTANE EMIS NET'') \<and> mk = js ''POUR:''"
    with match_js_pourRe [OF assms(3-6), of rest] assms(2)
    have "match_js pourRe d = Some [(1, x # ?g)]" by simp
    with a show ?thesis by (simp add: extractClientName_def)
  next
    assume a: "\<not> includes_js d (js ''VIR INSTANTANE EMIS NET'')
               \<and> includes_js d (js ''PRELEVEMENT EUROPEEN'') \<and> mk = js ''DE:''"
    with match_js_deRe [OF assms(3-6), of rest] assms(2)
    have "match_js deRe d = Some [(1, x # ?g)]" by simp
    with a show ?thesis by (simp add: extractClientName_def)
  qed
  with cleanMatch_head [OF assms(5), of ?g] show ?thesis by simp
qed


text \<open>The description of scenario 1: the name starts with \<open>M\<close> (code unit 77).\<close>

theorem extractClientName_after_marker_witness:
  "includes_js (js ''VIR INSTANTANE EMIS NET POUR: M. JORGE GOENAGA PEREZ'')
     (js ''VIR INSTANTANE EMIS NET'')
   \<and> js ''VIR INSTANTANE EMIS NET POUR: M. JORGE GOENAGA PEREZ''
       = js ''VIR INSTANTANE EMIS NET '' @ js ''POUR:'' @ js '' '' @ 77 # js ''. JORGE GOENAGA PEREZ''
   \<and> extractClientName (js ''VIR INSTANTANE EMIS NET POUR: M. JORGE GOENAGA PEREZ'') \<noteq> []
   \<and> hd (extractClientName (js ''VIR INSTANTANE EMIS NET POUR: M. JORGE GOENAGA PEREZ'')) = 77"
proof -
  let ?d = "js ''VIR INSTANTANE EMIS NET POUR: M. JORGE GOENAGA PEREZ''"
  have inc: "includes_js ?d (js ''VIR INSTANTANE EMIS NET'')" by (simp add: js_def)
  have d: "?d = js ''VIR INSTANTANE EMIS NET '' @ js ''POUR:'' @ js '' '' @ 77 # js ''. JORGE GOENAGA PEREZ''"
    by (simp add: js_def)
  have rule: "(includes_js ?d (js ''VIR INSTANTANE EMIS NET'') \<and> js ''POUR:'' = js ''POUR:'')
        \<or> (\<not> includes_js ?d (js ''VIR INSTANTANE EMIS NET'')
            \<and> includes_js ?d (js ''PRELEVEMENT EUROPEEN'') \<and> js ''POUR:'' = js ''DE:'')"
    using inc by simp
  have colon: "58 \<notin> set (js ''VIR INSTANTANE EMIS NET '')" by (simp add: js_def)
  have ws: "list_all isSpace (js '' '')" by (simp add: js_def isSpace_def)
  have x: "\<not> isSpace 77" "\<not> isDigit 77" by (simp_all add: isSpace_def isDigit_def)
  note main = extractClientName_after_marker [OF rule d colon ws x]
  have r: "extractClientName ?d \<noteq> []" using main by (rule conjunct2 [THEN conjunct1])
  have h: "hd (extractClientName ?d) = 77" using main by (rule conjunct2 [THEN conjunct2])
  from inc d r h show ?thesis by (intro conjI)
qed

text \<open>
  Claim C8 as stated fails. \<open>POUR: 12\<close> has the marker and text after it, and neither
  marker rule applies to it: its name is \<open>Unknown Client\<close>. In
  \<open>VIR INSTANTANE EMIS NET POUR: 123\<close> the expression takes the space after the marker
  for the name, and the trimmed name is empty.
\<close>

theorem extractClientName_degenerate:
  "extractClientName (js ''POUR: 12'') = js ''Unknown Client''
   \<and> extractClientName (js ''VIR INSTANTANE EMIS NET POUR: 123'') = []"
  by (simp add: eval_model)

subsection \<open>Clean names\<close>

lemma nameChar_not_space: "nameChar c \<Longrightarrow> \<not> isSpace c"
  by (auto simp: nameChar_def isSpace_def)

lemma nameChar_kept: "nameChar c \<or> c = 32 \<Longrightarrow>
  \<not> accepts (NSet [Rng 97 122, Rng 65 90, Rng 192 255, Rng 48 57, Spc, Ch 45, Ch 46]) c"
  by (auto simp: nameChar_def isSpace_def)

lemma exec_deRe_colon: "exec deRe b s \<noteq> None \<Longrightarrow> 58 \<in> set s"
proof (induction s arbitrary: b)
  case Nil
  then show ?case using matchAt_deRe_colon [of b "[]"] by auto
next
  case (Cons x xs)
  show ?case
  proof (cases "matchAt deRe b (x # xs)")
    case (Some f)
    then have "matchAt deRe b (x # xs) \<noteq> None" by simp
    from matchAt_deRe_colon [OF this] show ?thesis by auto
  next
    case None
    with Cons.prems have "exec deRe False xs \<noteq> None" by auto
    from Cons.IH [OF this] show ?thesis by simp
  qed
qed

lemma join_Cons: "xs \<noteq> [] \<Longrightarrow> join sep (x # xs) = x @ sep @ join sep xs"
  by (cases xs) simp_all

lemma set_join: "set (join sep xs) \<subseteq> set sep \<union> \<Union> (set ` set xs)"
  by (induction sep xs rule: join.induct) auto

lemma hd_join: "xs \<noteq> [] \<Longrightarrow> hd xs \<noteq> [] \<Longrightarrow> join sep xs \<noteq> [] \<and> hd (join sep xs) = hd (hd xs)"
  by (cases xs; cases "tl xs") (auto simp: join_Cons)

lemma last_join:
  "xs \<noteq> [] \<Longrightarrow> last xs \<noteq> [] \<Longrightarrow>
   join sep xs \<noteq> [] \<and> last (join sep xs) = last (last xs)"
proof (induction xs rule: list_nonempty_induct)
  case (single x)
  then show ?case by simp
next
  case (cons x xs)
  then show ?case by (simp add: join_Cons)
qed

lemma space_32: "isSpace 32"
  by (simp add: isSpace_def)

lemma splitLoop_nonspace:
  "\<not> isSpace x \<Longrightarrow>
   splitLoop (Plus space) piece b (x # xs) = splitLoop (Plus space) (piece @ [x]) False xs"
  by (simp add: matchAt_Plus_space)

lemma splitLoop_word:
  "list_all (\<lambda>c. \<not> isSpace c) w \<Longrightarrow> w \<noteq> [] \<Longrightarrow>
   splitLoop (Plus space) piece b (w @ t) = splitLoop (Plus space) (piece @ w) False t"
proof (induction w arbitrary: piece b)
  case Nil
  then show ?case by simp
next
  case (Cons x w)
  show ?case
  proof (cases "w = []")
    case True
    with Cons.prems show ?thesis by (simp add: splitLoop_nonspace del: splitLoop.simps)
  next
    case False
    with Cons.prems Cons.IH [of "piece @ [x]" False] show ?thesis
      by (simp add: splitLoop_nonspace del: splitLoop.simps)
  qed
qed

lemma splitLoop_space:
  "t \<noteq> [] \<Longrightarrow> \<not> isSpace (hd t) \<Longrightarrow>
   splitLoop (Plus space) piece b (32 # t) = piece # splitLoop (Plus space) [] False t"
  by (cases t) (simp_all add: matchAt_Plus_space space_32)

lemma splitLoop_join:
  assumes "ws \<noteq> []" and "\<forall>w\<in>set ws. w \<noteq> [] \<and> list_all (\<lambda>c. \<not> isSpace c) w"
  shows "splitLoop (Plus space) piece b (join [32] ws) = (piece @ hd ws) # tl ws"
  using assms
proof (induction ws arbitrary: piece b rule: list_nonempty_induct)
  case (single w)
  then have "splitLoop (Plus space) piece b (w @ []) = splitLoop (Plus space) (piece @ w) False []"
    by (intro splitLoop_word) simp_all
  then show ?case by simp
next
  case (cons w ws)
  from cons.prems have w: "w \<noteq> []" "list_all (\<lambda>c. \<not> isSpace c) w" by simp_all
  from cons.prems cons.hyps have h: "hd ws \<noteq> []" "\<not> isSpace (hd (hd ws))"
    by (cases ws; cases "hd ws"; auto)+
  from hd_join [OF cons.hyps(1) h(1), of "[32]"] h(2)
  have j: "join [32] ws \<noteq> []" "\<not> isSpace (hd (join [32] ws))" by simp_all
  have "splitLoop (Plus space) piece b (join [32] (w # ws))
        = splitLoop (Plus space) piece b (w @ 32 # join [32] ws)"
    by (simp add: join_Cons cons.hyps(1))
  also have "\<dots> = splitLoop (Plus space) (piece @ w) False (32 # join [32] ws)"
    using w(2) w(1) by (rule splitLoop_word)
  also have "\<dots> = (piece @ w) # splitLoop (Plus space) [] False (join [32] ws)"
    using j by (rule splitLoop_space)
  also have "splitLoop (Plus space) [] False (join [32] ws) = ([] @ hd ws) # tl ws"
    using cons.prems by (intro cons.IH) simp
  finally show ?case using cons.hyps(1) by simp
qed

lemma trim_fixed: "s \<noteq> [] \<Longrightarrow> \<not> isSpace (hd s) \<Longrightarrow> \<not> isSpace (last s) \<Longrightarrow> trim s = s"
proof -
  assume s: "s \<noteq> []" and h: "\<not> isSpace (hd s)" and l: "\<not> isSpace (last s)"
  from s h have 1: "dropWhile isSpace s = s" by (cases s) simp_all
  from s l have "dropWhile isSpace (rev s) = rev s"
    by (cases "rev s") (auto simp: last_rev [symmetric] hd_rev)
  with 1 show ?thesis by (simp add: trim_def)
qed


lemma exec_Plus_space_flag: "exec (Plus space) b s = exec (Plus space) False s"
  by (cases s) (simp_all add: matchAt_Plus_space)

lemma replaceAll_Plus_space_flag:
  "replaceAll (Plus space) rep b s = replaceAll (Plus space) rep False s"
  by (simp add: replaceAll.simps [of _ _ b s] replaceAll.simps [of _ _ False s]
        exec_Plus_space_flag [of b s])

lemma replaceAll_word:
  "list_all (\<lambda>c. \<not> isSpace c) w \<Longrightarrow>
   replaceAll (Plus space) rep False (w @ t) = w @ replaceAll (Plus space) rep False t"
  by (induction w) (simp_all add: replaceAll_head)

lemma replaceAll_one_space:
  assumes "t \<noteq> []" and "\<not> isSpace (hd t)"
  shows "replaceAll (Plus space) [32] b (32 # t) = 32 # replaceAll (Plus space) [32] False t"
proof -
  from assms have "matchAt (Plus space) b (32 # t) = Some ([], [32], [], t)"
    by (cases t) (simp_all add: matchAt_Plus_space space_32)
  from replaceAll_hit [OF this] show ?thesis by simp
qed

lemma replaceAll_Plus_space_Nil: "replaceAll (Plus space) rep b [] = []"
  by (rule replaceAll_Nil) (simp add: matchAt_Plus_space)

lemma replaceAll_join:
  assumes "ws \<noteq> []" and "\<forall>w\<in>set ws. w \<noteq> [] \<and> list_all (\<lambda>c. \<not> isSpace c) w"
  shows "replaceAll (Plus space) [32] False (join [32] ws) = join [32] ws"
  using assms
proof (induction ws rule: list_nonempty_induct)
  case (single w)
  then have "replaceAll (Plus space) [32] False (w @ []) = w @ replaceAll (Plus space) [32] False []"
    by (intro replaceAll_word) simp
  then show ?case by (simp add: replaceAll_Plus_space_Nil)
next
  case (cons w ws)
  from cons.prems have w: "list_all (\<lambda>c. \<not> isSpace c) w" by simp
  from cons.prems cons.hyps have h: "hd ws \<noteq> []" "\<not> isSpace (hd (hd ws))"
    by (cases ws; cases "hd ws"; auto)+
  from hd_join [OF cons.hyps(1) h(1), of "[32]"] h(2)
  have j: "join [32] ws \<noteq> []" "\<not> isSpace (hd (join [32] ws))" by simp_all
  have "replaceAll (Plus space) [32] False (join [32] (w # ws))
        = replaceAll (Plus space) [32] False (w @ 32 # join [32] ws)"
    by (simp add: join_Cons cons.hyps(1))
  also have "\<dots> = w @ replaceAll (Plus space) [32] False (32 # join [32] ws)"
    using w by (rule replaceAll_word)
  also have "replaceAll (Plus space) [32] False (32 # join [32] ws)
        = 32 # replaceAll (Plus space) [32] False (join [32] ws)"
    using j by (rule replaceAll_one_space)
  also have "replaceAll (Plus space) [32] False (join [32] ws) = join [32] ws"
    using cons.prems by (intro cons.IH) simp
  finally show ?case by (simp add: join_Cons cons.hyps(1))
qed

lemma replaceAll_none:
  "\<forall>c\<in>set s. \<not> accepts cl c \<Longrightarrow> replaceAll (Chr cl) rep b s = s"
  unfolding replaceAll_Chr by (induction s) simp_all

text \<open>
  Claim C6, as the code has it. \<open>extractClientName\<close> leaves a clean name as it is: a
  name of one to five words with single spaces between them, where every word passes the
  word filter of the extractor (more than two characters, no digit first, no stop word)
  and is made of letters, digits, hyphens and periods, no prefix is stripped from the
  name, and the name does not contain \<open>VIR INSTANTANE EMIS NET\<close>. Applying the function
  again to such a name gives the same name.
\<close>

theorem extractClientName_fixed_point:
  assumes "ws \<noteq> []" and "length ws \<le> 5"
    and "\<forall>w\<in>set ws. meaningfulWord w \<and> list_all nameChar w"
    and "stripPrefixes (join (js '' '') ws) = join (js '' '') ws"
    and "\<not> includes_js (join (js '' '') ws) (js ''VIR INSTANTANE EMIS NET'')"
  shows "extractClientName (join (js '' '') ws) = join (js '' '') ws"
proof -
  let ?n = "join [32] ws"
  have sp: "js '' '' = [32]" by (simp add: js_def)
  have words: "\<forall>w\<in>set ws. w \<noteq> [] \<and> list_all (\<lambda>c. \<not> isSpace c) w"
  proof
    fix w assume "w \<in> set ws"
    with assms(3) have "meaningfulWord w" and "list_all nameChar w" by auto
    then show "w \<noteq> [] \<and> list_all (\<lambda>c. \<not> isSpace c) w"
      by (auto simp: meaningfulWord_def list_all_iff nameChar_not_space)
  qed
  have chars: "nameChar c \<or> c = 32" if "c \<in> set ?n" for c
    using that set_join [of "[32]" ws] assms(3) by (auto simp: list_all_iff)
  have "58 \<notin> set ?n"
  proof
    assume "58 \<in> set ?n"
    from chars [OF this] show False by (simp add: nameChar_def)
  qed
  then have "exec deRe True ?n = None" using exec_deRe_colon by blast
  then have de: "match_js deRe ?n = None" by (simp add: match_js_def)
  have gen: "extractClientName ?n = genericName ?n"
    using assms(5) de by (simp add: extractClientName_def sp)
  from assms(1) words have h: "hd ws \<noteq> []" "\<not> isSpace (hd (hd ws))"
    by (cases ws; cases "hd ws"; auto)+
  from assms(1) have "last ws \<in> set ws" by simp
  with words have l1: "last ws \<noteq> []" and "list_all (\<lambda>c. \<not> isSpace c) (last ws)" by auto
  moreover from l1 have "last (last ws) \<in> set (last ws)" by simp
  ultimately have l: "last ws \<noteq> []" "\<not> isSpace (last (last ws))"
    by (simp_all add: list_all_iff)
  from hd_join [OF assms(1) h(1), of "[32]"] h(2)
  have n: "?n \<noteq> []" "\<not> isSpace (hd ?n)" by simp_all
  from last_join [OF assms(1) l(1), of "[32]"] l(2)
  have "\<not> isSpace (last ?n)" by simp
  with n have tr: "trim ?n = ?n" by (intro trim_fixed)
  have split: "split_js (Plus space) ?n = ws"
    using n(1) splitLoop_join [OF assms(1) words, of "[]" True] assms(1)
    by (simp add: split_js_def)
  have filt: "filter meaningfulWord ws = ws" using assms(3) by (simp add: filter_id_conv)
  have tk: "take 5 ws = ws" using assms(2) by simp
  have r1: "replaceAll (Plus space) [32] True ?n = ?n"
    using replaceAll_join [OF assms(1) words] replaceAll_Plus_space_flag [of "[32]" True ?n]
    by simp
  have r2: "replaceAll notNameChar [32] True ?n = ?n"
    unfolding notNameChar_def using chars nameChar_kept by (intro replaceAll_none) blast
  have "genericName ?n = ?n"
    using assms(4) n(1)
    by (simp add: genericName_def Let_def sp split filt tk tr r1 r2)
  with gen show ?thesis by (simp add: sp)
qed

text \<open>The name \<open>JORGE GOENAGA PEREZ\<close>.\<close>

theorem extractClientName_fixed_point_witness:
  "join (js '' '') [js ''JORGE'', js ''GOENAGA'', js ''PEREZ''] = js ''JORGE GOENAGA PEREZ''
   \<and> meaningfulWord (js ''JORGE'') \<and> meaningfulWord (js ''GOENAGA'') \<and> meaningfulWord (js ''PEREZ'')
   \<and> extractClientName (js ''JORGE GOENAGA PEREZ'') = js ''JORGE GOENAGA PEREZ''"
proof -
  let ?ws = "[js ''JORGE'', js ''GOENAGA'', js ''PEREZ'']"
  have j: "join (js '' '') ?ws = js ''JORGE GOENAGA PEREZ''" by (simp add: js_def)
  have m: "meaningfulWord (js ''JORGE'')" "meaningfulWord (js ''GOENAGA'')"
    "meaningfulWord (js ''PEREZ'')"
    by (simp_all add: eval_model)
  have c: "list_all nameChar (js ''JORGE'')" "list_all nameChar (js ''GOENAGA'')"
    "list_all nameChar (js ''PEREZ'')"
    by (simp_all add: js_def nameChar_def)
  have w: "\<forall>w\<in>set ?ws. meaningfulWord w \<and> list_all nameChar w" using m c by simp
  have s: "stripPrefixes (join (js '' '') ?ws) = join (js '' '') ?ws"
    unfolding j by (simp add: eval_model)
  have v: "\<not> includes_js (join (js '' '') ?ws) (js ''VIR INSTANTANE EMIS NET'')"
    unfolding j by (simp add: js_def)
  have "extractClientName (join (js '' '') ?ws) = join (js '' '') ?ws"
    by (rule extractClientName_fixed_point [OF _ _ w s v]) simp_all
  with j m show ?thesis by simp
qed

lemma scenario1_name:
  "extractClientName (js ''VIR INSTANTANE EMIS NET POUR: M. JORGE GOENAGA PEREZ'')
   = js ''M. JORGE GOENAGA PEREZ''"
  by (simp add: eval_model)

lemma scenario1_name_again:
  "extractClientName (js ''M. JORGE GOENAGA PEREZ'') = js ''JORGE GOENAGA PEREZ''"
  by (simp add: eval_model)

text \<open>
  Claim C6 as stated fails: the name of scenario 1 is \<open>M. JORGE GOENAGA PEREZ\<close>, and
  the name of that name is \<open>JORGE GOENAGA PEREZ\<close>, since the word filter drops \<open>M.\<close>.
\<close>

theorem extractClientName_not_idempotent:
  "extractClientName
     (extractClientName (js ''VIR INSTANTANE EMIS NET POUR: M. JORGE GOENAGA PEREZ''))
   \<noteq> extractClientName (js ''VIR INSTANTANE EMIS NET POUR: M. JORGE GOENAGA PEREZ'')"
  by (simp add: scenario1_name scenario1_name_again js_eq_iff)

end
